theory Spec2Isabelle
  imports Complex_Main
begin

section \<open>Data of the two upload routes\<close>

text \<open>
  The node route is \<^verbatim>\<open>src/app/api/upload-node/route.ts\<close>, the relationship route is the
  second document of \<^verbatim>\<open>src/unnamed/part_003\<close>. Both are one \<^verbatim>\<open>start(controller)\<close> callback
  of a \<^verbatim>\<open>ReadableStream\<close>; the model below is that callback.

  A parsed CSV row is a JavaScript object \<^verbatim>\<open>Record<string, string>\<close>: its keys in insertion
  order with their values, here an association list. \<^verbatim>\<open>row.K\<close> is \<open>map_of row K\<close>
  (\<open>None\<close> for \<^verbatim>\<open>undefined\<close>), \<^verbatim>\<open>Object.keys(row)\<close> is \<open>map fst row\<close>.
\<close>

type_synonym row = "(string \<times> string) list"

text \<open>
  A thrown JavaScript value: an \<^verbatim>\<open>Error\<close> with its message, a \<^verbatim>\<open>Neo4jError\<close> of the driver (an
  \<^verbatim>\<open>Error\<close> too) with its message and its \<^verbatim>\<open>retriable\<close> flag, or anything else.
\<close>

datatype js_exn = JsError string | Neo4jError string bool | JsOther

text \<open>\<^verbatim>\<open>e instanceof Error ? e.message : dflt\<close>\<close>

fun exn_message :: "js_exn \<Rightarrow> string \<Rightarrow> string" where
  "exn_message (JsError m) dflt = m"
| "exn_message (Neo4jError m r) dflt = m"
| "exn_message JsOther dflt = dflt"

text \<open>\<^verbatim>\<open>isRetriableError(error)\<close> of the driver: only its own errors can be retriable.\<close>

fun retriable :: "js_exn \<Rightarrow> bool" where
  "retriable (Neo4jError m r) = r"
| "retriable e = False"

text \<open>
  The chunks written to the stream, one JSON object per line:
  \<^verbatim>\<open>{progress, message}\<close>, \<^verbatim>\<open>{error: {error: {message, details?}}}\<close> and
  \<^verbatim>\<open>{data: {success, processedFiles, totalRows, message}}\<close>.
  \<^verbatim>\<open>progress\<close> is a JavaScript number; the model computes it in exact rational arithmetic.
\<close>

datatype event =
    Progress rat string
  | ErrorEvent string "string list option"
  | DataEvent bool nat nat string

text \<open>
  What \<^verbatim>\<open>file.text()\<close> followed by \<^verbatim>\<open>Papa.parse(..., {header: true, ...})\<close> gives for one
  uploaded file: either of the two throws, or the parser returns \<^verbatim>\<open>meta.fields\<close> (possibly
  undefined) and \<^verbatim>\<open>data\<close>. PapaParse is a library, so its result is an input of the model.
\<close>

datatype file_read = ReadThrows js_exn | ParseResult "string list option" "row list"

record upload_file =
  name :: string
  content :: file_read

text \<open>\<^verbatim>\<open>ParsedCSVData\<close> and \<^verbatim>\<open>ParsedRelationshipData\<close> (the same four fields).\<close>

record parsed_csv =
  fileName :: string
  headers :: "string list"
  rows :: "row list"
  rowCount :: nat

text \<open>The three request headers \<^verbatim>\<open>x-neo4j-url\<close>, \<^verbatim>\<open>x-neo4j-username\<close>, \<^verbatim>\<open>x-neo4j-password\<close>;
  \<^verbatim>\<open>headers.get\<close> returns null for an absent header.\<close>

record connection =
  connectionUrl :: "string option"
  username :: "string option"
  password :: "string option"

text \<open>\<^verbatim>\<open>!v\<close> for a value that is a string, null or undefined.\<close>

fun falsy :: "string option \<Rightarrow> bool" where
  "falsy None = True"
| "falsy (Some v) = (v = [])"

subsection \<open>The graph store\<close>

text \<open>
  The store is Neo4j, reached through the driver. The routes send three Cypher statements;
  the model names them by their parameters and gives each the meaning Cypher gives its text.
  Property values are strings, as every value the routes write is (\<^verbatim>\<open>dynamicTyping: false\<close>).
\<close>

record node =
  node_labels :: "string list"
  node_props :: row

record rel =
  rel_from :: nat
  rel_to :: nat
  rel_type :: string
  rel_props :: row

record graph =
  nodes :: "node list"
  rels :: "rel list"

datatype cypher =
    CreateIndex
  | CreateNodes string
  | CreateRels string "string list"

text \<open>
  \<^verbatim>\<open>UNWIND $batch AS row CREATE (n:`label`) SET n = row RETURN count(n) as created\<close>:
  one new node per element of the batch, labelled \<open>label\<close>, its properties the row.
\<close>

definition cypher_create_nodes :: "string \<Rightarrow> row list \<Rightarrow> graph \<Rightarrow> graph \<times> nat" where
  "cypher_create_nodes label batch g =
     (g\<lparr>nodes := nodes g @ map (\<lambda>r. \<lparr>node_labels = [label], node_props = r\<rparr>) batch\<rparr>,
      length batch)"

text \<open>
  \<^verbatim>\<open>MATCH (x {id: v})\<close>: every node of the graph whose \<^verbatim>\<open>id\<close> property equals \<open>v\<close>,
  whatever its labels; a null \<open>v\<close> (the row has no such key) matches nothing.
\<close>

definition match_id :: "graph \<Rightarrow> string option \<Rightarrow> nat list" where
  "match_id g v =
     (case v of
        None \<Rightarrow> []
      | Some i \<Rightarrow> filter (\<lambda>j. map_of (node_props (nodes g ! j)) ''id'' = Some i)
                    [0..<length (nodes g)])"

text \<open>The map literal \<^verbatim>\<open>{k1: row.k1, ..., kn: row.kn}\<close>; a null value sets no property.\<close>

definition props_literal :: "string list \<Rightarrow> row \<Rightarrow> row" where
  "props_literal keys r =
     concat (map (\<lambda>k. case map_of r k of None \<Rightarrow> [] | Some v \<Rightarrow> [(k, v)]) keys)"

text \<open>
  \<^verbatim>\<open>UNWIND $batch AS row MATCH (from {id: row.FROM_ID}) MATCH (to {id: row.TO_ID})
  CREATE (from)-[r:`type` {...}]->(to) RETURN count(r) as created\<close>:
  for each row, one relationship for every pair of a matching source and a matching target.
\<close>

definition rels_of_row :: "graph \<Rightarrow> string \<Rightarrow> string list \<Rightarrow> row \<Rightarrow> rel list" where
  "rels_of_row g type keys r =
     concat (map (\<lambda>a. map (\<lambda>b. \<lparr>rel_from = a, rel_to = b, rel_type = type,
                                   rel_props = props_literal keys r\<rparr>)
                            (match_id g (map_of r ''TO_ID'')))
                 (match_id g (map_of r ''FROM_ID'')))"

definition cypher_create_rels :: "string \<Rightarrow> string list \<Rightarrow> row list \<Rightarrow> graph \<Rightarrow> graph \<times> nat" where
  "cypher_create_rels type keys batch g =
     (let new = concat (map (rels_of_row g type keys) batch)
      in (g\<lparr>rels := rels g @ new\<rparr>, length new))"

text \<open>\<^verbatim>\<open>CREATE INDEX IF NOT EXISTS FOR (n) ON (n.id)\<close> changes no node and no relationship.\<close>

fun run_cypher :: "cypher \<Rightarrow> row list \<Rightarrow> graph \<Rightarrow> graph \<times> nat" where
  "run_cypher CreateIndex batch g = (g, 0)"
| "run_cypher (CreateNodes label) batch g = cypher_create_nodes label batch g"
| "run_cypher (CreateRels type keys) batch g = cypher_create_rels type keys batch g"

text \<open>
  The calls a run makes to the driver, in order. Whether a call throws is the store's
  choice, not the program's: the environment says, for each call site, whether it throws
  (connectivity, authentication, a statement the store rejects) and with what. A
  transaction is known by the number \<open>k\<close> of statements run in transactions before it began:
  \<open>write_fault env k\<close> is what its statement throws, \<open>commit_fault env k\<close> what its commit
  throws, \<open>commit_applied env k\<close> whether the store kept what the transaction wrote although
  its commit threw (a connection lost while committing leaves that open), and
  \<open>retry_limit env k\<close> bounds how often the retry clock of the driver lets a managed
  transaction that began there run again.
\<close>

datatype store_op =
    DriverOpened
  | SessionOpened
  | SessionRun cypher
  | TxRun cypher "row list"
  | SessionClose
  | DriverClose

record env =
  driver_fault :: "js_exn option"
  session_fault :: "js_exn option"
  index_fault :: "js_exn option"
  write_fault :: "nat \<Rightarrow> js_exn option"
  commit_fault :: "nat \<Rightarrow> js_exn option"
  commit_applied :: "nat \<Rightarrow> bool"
  retry_limit :: "nat \<Rightarrow> nat"
  session_close_fault :: "js_exn option"
  driver_close_fault :: "js_exn option"

subsection \<open>State of one run\<close>

text \<open>
  The stream controller (the chunks enqueued so far and whether \<^verbatim>\<open>close()\<close> was called), the
  store and the calls made to it, and the mutable local variables of the callback.
  \<^verbatim>\<open>totalInserted\<close> of the node route and \<^verbatim>\<open>totalCreated\<close> of the relationship route are
  the one field \<open>totalCreated\<close>.
\<close>

record state =
  events :: "event list"
  closed :: bool
  calls :: "store_op list"
  store :: graph
  driver :: bool
  parsedFiles :: "parsed_csv list"
  totalRows :: nat
  totalCreated :: nat
  processedRows :: nat

definition init_state :: "graph \<Rightarrow> state" where
  "init_state g =
     \<lparr>events = [], closed = False, calls = [], store = g, driver = False,
      parsedFiles = [], totalRows = 0, totalCreated = 0, processedRows = 0\<rparr>"

text \<open>
  How a statement completes: normally with a value, by the \<^verbatim>\<open>return\<close> of the callback, or
  by a throw. A statement is a function from the state to its completion and the new state.
\<close>

datatype 'a completion = Normal 'a | Return | Throw js_exn

type_synonym 'a stmt = "state \<Rightarrow> 'a completion \<times> state"

definition skip :: "unit stmt" where
  "skip s = (Normal (), s)"

definition return_stmt :: "'a stmt" where
  "return_stmt s = (Return, s)"

definition throw :: "js_exn \<Rightarrow> 'a stmt" where
  "throw e s = (Throw e, s)"

definition bind :: "'a stmt \<Rightarrow> ('a \<Rightarrow> 'b stmt) \<Rightarrow> 'b stmt" where
  "bind f g s =
     (case f s of
        (Normal v, s') \<Rightarrow> g v s'
      | (Return, s') \<Rightarrow> (Return, s')
      | (Throw e, s') \<Rightarrow> (Throw e, s'))"

definition seq :: "unit stmt \<Rightarrow> 'a stmt \<Rightarrow> 'a stmt" where
  "seq f g = bind f (\<lambda>_. g)"

text \<open>A block of statements, run in order.\<close>

fun block :: "unit stmt list \<Rightarrow> unit stmt" where
  "block [] = skip"
| "block (f # fs) = seq f (block fs)"

text \<open>\<^verbatim>\<open>try { body } catch (e) { handler }\<close>\<close>

definition try_catch :: "'a stmt \<Rightarrow> (js_exn \<Rightarrow> 'a stmt) \<Rightarrow> 'a stmt" where
  "try_catch body handler s =
     (case body s of
        (Throw e, s') \<Rightarrow> handler e s'
      | (c, s') \<Rightarrow> (c, s'))"

text \<open>\<^verbatim>\<open>try { body } finally { fin }\<close>: the finaliser always runs; when it throws, its throw
  replaces the completion of the body.\<close>

definition try_finally :: "'a stmt \<Rightarrow> unit stmt \<Rightarrow> 'a stmt" where
  "try_finally body fin s =
     (case body s of
        (c, s') \<Rightarrow>
          (case fin s' of
             (Normal _, s'') \<Rightarrow> (c, s'')
           | (Return, s'') \<Rightarrow> (Return, s'')
           | (Throw e, s'') \<Rightarrow> (Throw e, s'')))"

text \<open>\<^verbatim>\<open>for (const x of xs) { body }\<close> and the indexed
  \<^verbatim>\<open>for (let i = i0; i < xs.length; i++) { body(i, xs[i]) }\<close>.\<close>

fun for_of :: "('a \<Rightarrow> unit stmt) \<Rightarrow> 'a list \<Rightarrow> unit stmt" where
  "for_of body [] = skip"
| "for_of body (x # xs) = seq (body x) (for_of body xs)"

fun for_index :: "(nat \<Rightarrow> 'a \<Rightarrow> unit stmt) \<Rightarrow> nat \<Rightarrow> 'a list \<Rightarrow> unit stmt" where
  "for_index body i [] = skip"
| "for_index body i (x # xs) = seq (body i x) (for_index body (Suc i) xs)"

text \<open>A statement that reads the variables.\<close>

definition reading :: "(state \<Rightarrow> 'a stmt) \<Rightarrow> 'a stmt" where
  "reading f s = f s s"

subsection \<open>The stream controller\<close>

text \<open>
  \<^verbatim>\<open>controller.enqueue\<close> and \<^verbatim>\<open>controller.close\<close> throw a \<^verbatim>\<open>TypeError\<close> once the controller
  has been closed (Streams standard); otherwise the chunk is appended.
\<close>

definition enqueue :: "event \<Rightarrow> unit stmt" where
  "enqueue ev s =
     (if closed s then (Throw (JsError ''Invalid state: Controller is already closed''), s)
      else (Normal (), s\<lparr>events := events s @ [ev]\<rparr>))"

definition controller_close :: "unit stmt" where
  "controller_close s =
     (if closed s then (Throw (JsError ''Invalid state: Controller is already closed''), s)
      else (Normal (), s\<lparr>closed := True\<rparr>))"

definition sendProgress :: "rat \<Rightarrow> string \<Rightarrow> unit stmt" where
  "sendProgress progress message = enqueue (Progress progress message)"

text \<open>The recurring pair \<^verbatim>\<open>controller.enqueue(encode(JSON.stringify({error: errorResponse})));
  controller.close();\<close>\<close>

definition send_error :: "string \<Rightarrow> string list option \<Rightarrow> unit stmt" where
  "send_error message details = seq (enqueue (ErrorEvent message details)) controller_close"

subsection \<open>Strings and numbers\<close>

text \<open>\<^verbatim>\<open>xs.join(sep)\<close>\<close>

fun join :: "string \<Rightarrow> string list \<Rightarrow> string" where
  "join sep [] = []"
| "join sep [x] = x"
| "join sep (x # y # ys) = x @ sep @ join sep (y # ys)"

text \<open>A count inside a template string: its decimal digits.\<close>

definition digit_char :: "nat \<Rightarrow> char" where
  "digit_char d = char_of (48 + d)"

function string_of_nat :: "nat \<Rightarrow> string" where
  "string_of_nat n =
     (if n < 10 then [digit_char n] else string_of_nat (n div 10) @ [digit_char (n mod 10)])"
  by pat_completeness auto
termination
  by (relation "measure (\<lambda>n. n)") auto

declare string_of_nat.simps [simp del]

text \<open>\<^verbatim>\<open>Math.round\<close>: the nearest integer, a tie going up.\<close>

definition math_round :: "rat \<Rightarrow> rat" where
  "math_round x = of_int \<lfloor>x + 1 / 2\<rfloor>"

text \<open>\<^verbatim>\<open>xs.slice(a, b)\<close> for \<open>a \<le> b\<close>.\<close>

definition slice :: "'a list \<Rightarrow> nat \<Rightarrow> nat \<Rightarrow> 'a list" where
  "slice xs a b = take (b - a) (drop a xs)"

subsection \<open>Grouping rows\<close>

text \<open>
  \<^verbatim>\<open>new Map<string, Record<string, string>[]>()\<close>: a JavaScript \<^verbatim>\<open>Map\<close> iterates in the order
  in which its keys were first set, so it is an association list with distinct keys.
\<close>

type_synonym groups = "(string \<times> row list) list"

fun map_has :: "groups \<Rightarrow> string \<Rightarrow> bool" where
  "map_has [] k = False"
| "map_has ((k', v) # m) k = (k' = k \<or> map_has m k)"

fun map_set :: "groups \<Rightarrow> string \<Rightarrow> row list \<Rightarrow> groups" where
  "map_set [] k v = [(k, v)]"
| "map_set ((k', v') # m) k v = (if k' = k then (k', v) # m else (k', v') # map_set m k v)"

text \<open>\<^verbatim>\<open>m.get(k)!.push(r)\<close>\<close>

fun map_push :: "groups \<Rightarrow> string \<Rightarrow> row \<Rightarrow> groups" where
  "map_push [] k r = []"
| "map_push ((k', v') # m) k r =
     (if k' = k then (k', v' @ [r]) # m else (k', v') # map_push m k r)"

text \<open>One turn of the grouping loop of the node route: a row with a falsy \<^verbatim>\<open>LABEL\<close> is
  skipped; otherwise the row without its \<^verbatim>\<open>LABEL\<close> key is pushed on the group of its label.\<close>

definition node_group_step :: "groups \<Rightarrow> row \<Rightarrow> groups" where
  "node_group_step rowsByLabel r =
     (let label = map_of r ''LABEL'' in
      if falsy label then rowsByLabel
      else
        let m = (if \<not> map_has rowsByLabel (the label)
                 then map_set rowsByLabel (the label) [] else rowsByLabel);
            properties = filter (\<lambda>kv. fst kv \<noteq> ''LABEL'') r
        in map_push m (the label) properties)"

definition group_by_label :: "row list \<Rightarrow> groups" where
  "group_by_label rs = foldl node_group_step [] rs"

text \<open>The same loop of the relationship route, on \<^verbatim>\<open>TYPE\<close>; the row is pushed whole.\<close>

definition rel_group_step :: "groups \<Rightarrow> row \<Rightarrow> groups" where
  "rel_group_step rowsByType r =
     (let type = map_of r ''TYPE'' in
      if falsy type then rowsByType
      else
        let m = (if \<not> map_has rowsByType (the type)
                 then map_set rowsByType (the type) [] else rowsByType)
        in map_push m (the type) r)"

definition group_by_type :: "row list \<Rightarrow> groups" where
  "group_by_type rs = foldl rel_group_step [] rs"

subsection \<open>Calls to the driver\<close>

definition neo4j_driver :: "env \<Rightarrow> unit stmt" where
  "neo4j_driver env s =
     (case driver_fault env of
        Some e \<Rightarrow> (Throw e, s)
      | None \<Rightarrow> (Normal (), s\<lparr>driver := True, calls := calls s @ [DriverOpened]\<rparr>))"

definition driver_session :: "env \<Rightarrow> unit stmt" where
  "driver_session env s =
     (case session_fault env of
        Some e \<Rightarrow> (Throw e, s)
      | None \<Rightarrow> (Normal (), s\<lparr>calls := calls s @ [SessionOpened]\<rparr>))"

definition session_run_index :: "env \<Rightarrow> unit stmt" where
  "session_run_index env s =
     (let s1 = s\<lparr>calls := calls s @ [SessionRun CreateIndex]\<rparr> in
      case index_fault env of
        Some e \<Rightarrow> (Throw e, s1)
      | None \<Rightarrow> (Normal (), s1))"

definition session_close :: "env \<Rightarrow> unit stmt" where
  "session_close env s =
     (let s1 = s\<lparr>calls := calls s @ [SessionClose]\<rparr> in
      case session_close_fault env of
        Some e \<Rightarrow> (Throw e, s1)
      | None \<Rightarrow> (Normal (), s1))"

definition driver_close :: "env \<Rightarrow> unit stmt" where
  "driver_close env s =
     (let s1 = s\<lparr>calls := calls s @ [DriverClose]\<rparr> in
      case driver_close_fault env of
        Some e \<Rightarrow> (Throw e, s1)
      | None \<Rightarrow> (Normal (), s1))"

fun is_tx_run :: "store_op \<Rightarrow> bool" where
  "is_tx_run (TxRun q b) = True"
| "is_tx_run _ = False"

text \<open>
  \<^verbatim>\<open>tx.run(query, {batch})\<close> followed by \<^verbatim>\<open>result.records[0]?.get("created").toNumber() || 0\<close>:
  the statement runs on the store and reports its count, unless the store throws at this
  (the k-th, from 0) statement of the run.
\<close>

definition tx_run :: "env \<Rightarrow> cypher \<Rightarrow> row list \<Rightarrow> nat stmt" where
  "tx_run env q batch s =
     (let k = length (filter is_tx_run (calls s));
          s1 = s\<lparr>calls := calls s @ [TxRun q batch]\<rparr>
      in case write_fault env k of
           Some e \<Rightarrow> (Throw e, s1)
         | None \<Rightarrow>
             (case run_cypher q batch (store s1) of
                (g, created) \<Rightarrow> (Normal created, s1\<lparr>store := g\<rparr>)))"

text \<open>
  One transaction of \<^verbatim>\<open>session.executeWrite(async (tx) => {...})\<close>: the driver begins a
  transaction, runs the transaction function and, when it completes, commits. When the
  function throws, the transaction is rolled back: the store is as it was when the
  transaction began. When the commit throws, the store is as it was then too, unless it
  kept what the transaction wrote. In both cases the error is that of the attempt, and
  what the function did to the variables of the callback and to the stream stays done.
  (A failure to begin the transaction leaves the run where a failure of the first
  statement leaves it, and is not told apart from it.)
\<close>

definition transaction :: "env \<Rightarrow> unit stmt \<Rightarrow> unit stmt" where
  "transaction env work s =
     (let k = length (filter is_tx_run (calls s)) in
      case work s of
        (Throw e, s') \<Rightarrow> (Throw e, s'\<lparr>store := store s\<rparr>)
      | (c, s') \<Rightarrow>
          (case commit_fault env k of
             Some e \<Rightarrow>
               (Throw e, s'\<lparr>store := (if commit_applied env k then store s' else store s)\<rparr>)
           | None \<Rightarrow> (c, s')))"

text \<open>
  The retry loop of a managed transaction (\<^verbatim>\<open>TransactionExecutor\<close> of the driver): an attempt
  that fails with a retriable error is made again, in a new transaction, as long as the
  retry clock (\<^verbatim>\<open>maxTransactionRetryTime\<close>) has not run out; \<open>n\<close> is the number of further
  attempts the clock allows. Any other error, and the error of the last attempt, is thrown.
\<close>

fun retry :: "nat \<Rightarrow> unit stmt \<Rightarrow> unit stmt" where
  "retry 0 attempt s = attempt s"
| "retry (Suc n) attempt s =
     (case attempt s of
        (Throw e, s') \<Rightarrow> if retriable e then retry n attempt s' else (Throw e, s')
      | (c, s') \<Rightarrow> (c, s'))"

text \<open>\<^verbatim>\<open>session.executeWrite(work)\<close>: the first attempt and the further ones the driver makes.\<close>

definition executeWrite :: "env \<Rightarrow> unit stmt \<Rightarrow> unit stmt" where
  "executeWrite env work s =
     retry (retry_limit env (length (filter is_tx_run (calls s)))) (transaction env work) s"

definition add_totalCreated :: "nat \<Rightarrow> unit stmt" where
  "add_totalCreated n s = (Normal (), s\<lparr>totalCreated := totalCreated s + n\<rparr>)"

definition add_processedRows :: "nat \<Rightarrow> unit stmt" where
  "add_processedRows n s = (Normal (), s\<lparr>processedRows := processedRows s + n\<rparr>)"

definition push_parsed :: "parsed_csv \<Rightarrow> unit stmt" where
  "push_parsed p s =
     (Normal (), s\<lparr>parsedFiles := parsedFiles s @ [p], totalRows := totalRows s + rowCount p\<rparr>)"

subsection \<open>The batch loop\<close>

text \<open>
  \<^verbatim>\<open>for (let i = 0; i < rows.length; i += batchSize) { const batch = rows.slice(i, i + batchSize); ... }\<close>
  with the loop body a parameter. Both routes fix \<^verbatim>\<open>batchSize\<close> to a positive constant; the
  test \<open>0 < batchSize\<close> is only what makes the recursion well-founded for every argument.
\<close>

function batch_loop :: "nat \<Rightarrow> (row list \<Rightarrow> unit stmt) \<Rightarrow> row list \<Rightarrow> nat \<Rightarrow> unit stmt" where
  "batch_loop batchSize body rs i s =
     (if i < length rs \<and> 0 < batchSize then
        (case body (slice rs i (i + batchSize)) s of
           (Normal _, s') \<Rightarrow> batch_loop batchSize body rs (i + batchSize) s'
         | (Return, s') \<Rightarrow> (Return, s')
         | (Throw e, s') \<Rightarrow> (Throw e, s'))
      else (Normal (), s))"
  by pat_completeness auto
termination
  by (relation "measure (\<lambda>(batchSize, body, rs, i, s). length rs - i)") auto

declare batch_loop.simps [simp del]

section \<open>The node route\<close>

text \<open>One turn of the parsing loop, the \<^verbatim>\<open>try { ... } catch (fileError) { ... }\<close> around it
  included; \<open>n\<close> is \<^verbatim>\<open>files.length\<close>.\<close>

definition parse_node_file :: "nat \<Rightarrow> nat \<Rightarrow> upload_file \<Rightarrow> unit stmt" where
  "parse_node_file n fileIndex file =
     try_catch
       (seq (sendProgress (5 + (of_nat fileIndex / of_nat n) * 10)
               (''Parsing '' @ name file @ ''...''))
          (case content file of
             ReadThrows e \<Rightarrow> throw e
           | ParseResult flds data \<Rightarrow>
               (let hs = (case flds of None \<Rightarrow> [] | Some h \<Rightarrow> h) in
                if length hs = 0 then
                  seq (send_error (''File \"'' @ name file @ ''\" has no headers'')
                         (Some [''The CSV file must have a header row with column names.'']))
                      return_stmt
                else if \<not> List.member hs ''LABEL'' then
                  seq (send_error
                         (''File \"'' @ name file @ ''\" is missing required \"LABEL\" column'')
                         (Some [''The CSV file must have a column named \"LABEL\" for the node type.'',
                                ''Found columns: '' @ join '', '' hs]))
                      return_stmt
                else
                  push_parsed \<lparr>fileName = name file, headers = hs, rows = data,
                               rowCount = length data\<rparr>)))
       (\<lambda>fileError.
          seq (send_error (''Failed to parse file: '' @ name file)
                 (Some [exn_message fileError ''Unknown error occurred'']))
              return_stmt)"

text \<open>The transaction function of one node batch, and the managed transaction that runs it.\<close>

definition node_batch_tx :: "env \<Rightarrow> string \<Rightarrow> row list \<Rightarrow> unit stmt" where
  "node_batch_tx env label batch = bind (tx_run env (CreateNodes label) batch) add_totalCreated"

definition node_batch :: "env \<Rightarrow> string \<Rightarrow> row list \<Rightarrow> unit stmt" where
  "node_batch env label batch = executeWrite env (node_batch_tx env label batch)"

definition node_batchSize :: nat where
  "node_batchSize = 1000"

text \<open>\<^verbatim>\<open>for (const [label, rows] of labelEntries)\<close>: the batches of one label.\<close>

definition node_label_rows :: "env \<Rightarrow> string \<times> row list \<Rightarrow> unit stmt" where
  "node_label_rows env entry =
     batch_loop node_batchSize (node_batch env (fst entry)) (snd entry) 0"

definition insert_node_file :: "env \<Rightarrow> parsed_csv \<Rightarrow> unit stmt" where
  "insert_node_file env parsedFile =
     for_of (node_label_rows env) (group_by_label (rows parsedFile))"

definition upload_nodes :: "env \<Rightarrow> upload_file list \<Rightarrow> connection \<Rightarrow> unit stmt" where
  "upload_nodes env files conn =
     try_catch
       (if length files = 0 then
          seq (send_error ''No files provided'' None) return_stmt
        else if falsy (connectionUrl conn) \<or> falsy (username conn) \<or> falsy (password conn) then
          seq (send_error ''Neo4j connection information missing''
                 (Some [''Please ensure you are connected to Neo4j'']))
              return_stmt
        else
          block
            [sendProgress 5 ''Parsing CSV files...'',
             for_index (parse_node_file (length files)) 0 files,
             reading (\<lambda>s. sendProgress 15
               (''Parsed '' @ string_of_nat (totalRows s) @ '' rows from ''
                  @ string_of_nat (length files) @ '' file(s)'')),
             sendProgress 20 ''Connecting to Neo4j...'',
             try_finally
               (try_catch
                  (block
                     [neo4j_driver env,
                      driver_session env,
                      try_finally
                        (block
                           [sendProgress 25 ''Starting data insertion...'',
                            reading (\<lambda>s. for_of (insert_node_file env) (parsedFiles s)),
                            sendProgress 95 ''Finalizing...'',
                            sendProgress 100 ''Upload complete!'',
                            reading (\<lambda>s. enqueue
                              (DataEvent True (length (parsedFiles s)) (totalCreated s)
                                 (''Successfully inserted '' @ string_of_nat (totalCreated s)
                                    @ '' nodes from '' @ string_of_nat (length (parsedFiles s))
                                    @ '' file(s)''))),
                            controller_close])
                        (session_close env)])
                  (\<lambda>neo4jError.
                     send_error ''Failed to insert data into Neo4j''
                       (Some [exn_message neo4jError ''Unknown Neo4j error''])))
               (reading (\<lambda>s. if driver s then driver_close env else skip))])
       (\<lambda>error.
          send_error ''Internal server error''
            (Some [exn_message error ''Unknown error occurred'']))"

section \<open>The relationship route\<close>

definition REQUIRED_COLUMNS :: "string list" where
  "REQUIRED_COLUMNS = [''TYPE'', ''FROM_LABEL'', ''FROM_ID'', ''TO_LABEL'', ''TO_ID'']"

definition parse_rel_file :: "nat \<Rightarrow> nat \<Rightarrow> upload_file \<Rightarrow> unit stmt" where
  "parse_rel_file n fileIndex file =
     try_catch
       (seq (sendProgress (5 + (of_nat fileIndex / of_nat n) * 10)
               (''Parsing '' @ name file @ ''...''))
          (case content file of
             ReadThrows e \<Rightarrow> throw e
           | ParseResult flds data \<Rightarrow>
               (let hs = (case flds of None \<Rightarrow> [] | Some h \<Rightarrow> h) in
                if length hs = 0 then
                  seq (send_error (''File \"'' @ name file @ ''\" has no headers'')
                         (Some [''The CSV file must have a header row with column names.'']))
                      return_stmt
                else
                  let missingColumns = filter (\<lambda>col. \<not> List.member hs col) REQUIRED_COLUMNS in
                  if length missingColumns > 0 then
                    seq (send_error
                           (''File \"'' @ name file @ ''\" is missing required columns'')
                           (Some [''Required columns: '' @ join '', '' REQUIRED_COLUMNS,
                                  ''Missing columns: '' @ join '', '' missingColumns,
                                  ''Found columns: '' @ join '', '' hs]))
                        return_stmt
                  else
                    push_parsed \<lparr>fileName = name file, headers = hs, rows = data,
                                 rowCount = length data\<rparr>)))
       (\<lambda>fileError.
          seq (send_error (''Failed to parse file: '' @ name file)
                 (Some [exn_message fileError ''Unknown error occurred'']))
              return_stmt)"

text \<open>
  The transaction function of one relationship batch. \<^verbatim>\<open>batch[0]\<close> of an empty batch is
  undefined and \<^verbatim>\<open>Object.keys(undefined)\<close> throws. The property keys are those of the first
  row of the batch that are not required columns; the counters and the progress event are
  updated inside the transaction function, so each time the driver runs it.
\<close>

definition rel_batch_tx :: "env \<Rightarrow> string \<Rightarrow> row list \<Rightarrow> unit stmt" where
  "rel_batch_tx env type batch =
     (case batch of
        [] \<Rightarrow> throw (JsError ''Cannot convert undefined or null to object'')
      | sampleRow # _ \<Rightarrow>
          (let propertyKeys =
                 filter (\<lambda>key. \<not> List.member REQUIRED_COLUMNS key) (map fst sampleRow)
           in bind (tx_run env (CreateRels type propertyKeys) batch)
                (\<lambda>created.
                   block
                     [add_totalCreated created,
                      add_processedRows (length batch),
                      reading (\<lambda>s.
                        let progress =
                              30 + (of_nat (processedRows s) / of_nat (totalRows s)) * 65
                        in sendProgress (math_round progress)
                             (''Created '' @ string_of_nat (processedRows s) @ ''/''
                                @ string_of_nat (totalRows s) @ '' relationships...''))])))"

definition rel_batch :: "env \<Rightarrow> string \<Rightarrow> row list \<Rightarrow> unit stmt" where
  "rel_batch env type batch = executeWrite env (rel_batch_tx env type batch)"

definition rel_batchSize :: nat where
  "rel_batchSize = 5000"

definition rel_type_rows :: "env \<Rightarrow> string \<times> row list \<Rightarrow> unit stmt" where
  "rel_type_rows env entry =
     batch_loop rel_batchSize (rel_batch env (fst entry)) (snd entry) 0"

definition create_rel_file :: "env \<Rightarrow> parsed_csv \<Rightarrow> unit stmt" where
  "create_rel_file env parsedFile =
     for_of (rel_type_rows env) (group_by_type (rows parsedFile))"

definition upload_relationships :: "env \<Rightarrow> upload_file list \<Rightarrow> connection \<Rightarrow> unit stmt" where
  "upload_relationships env files conn =
     try_catch
       (if length files = 0 then
          seq (send_error ''No files provided'' None) return_stmt
        else if falsy (connectionUrl conn) \<or> falsy (username conn) \<or> falsy (password conn) then
          seq (send_error ''Neo4j connection information missing''
                 (Some [''Please ensure you are connected to Neo4j'']))
              return_stmt
        else
          block
            [sendProgress 5 ''Parsing CSV files...'',
             for_index (parse_rel_file (length files)) 0 files,
             reading (\<lambda>s. sendProgress 15
               (''Parsed '' @ string_of_nat (totalRows s) @ '' rows from ''
                  @ string_of_nat (length files) @ '' file(s)'')),
             sendProgress 20 ''Connecting to Neo4j...'',
             try_finally
               (try_catch
                  (block
                     [neo4j_driver env,
                      driver_session env,
                      try_finally
                        (block
                           [sendProgress 25 ''Checking/creating indexes...'',
                            try_catch (session_run_index env) (\<lambda>indexError. skip),
                            sendProgress 30 ''Starting relationship creation...'',
                            reading (\<lambda>s. for_of (create_rel_file env) (parsedFiles s)),
                            sendProgress 95 ''Finalizing...'',
                            sendProgress 100 ''Upload complete!'',
                            reading (\<lambda>s. enqueue
                              (DataEvent True (length (parsedFiles s)) (totalCreated s)
                                 (''Successfully created '' @ string_of_nat (totalCreated s)
                                    @ '' relationships from ''
                                    @ string_of_nat (length (parsedFiles s)) @ '' file(s)''))),
                            controller_close])
                        (session_close env)])
                  (\<lambda>neo4jError.
                     send_error ''Failed to create relationships in Neo4j''
                       (Some [exn_message neo4jError ''Unknown Neo4j error''])))
               (reading (\<lambda>s. if driver s then driver_close env else skip))])
       (\<lambda>error.
          send_error ''Internal server error''
            (Some [exn_message error ''Unknown error occurred'']))"

text \<open>A store that never throws.\<close>

definition no_faults :: env where
  "no_faults =
     \<lparr>driver_fault = None, session_fault = None, index_fault = None,
      write_fault = (\<lambda>k. None), commit_fault = (\<lambda>k. None),
      commit_applied = (\<lambda>k. False), retry_limit = (\<lambda>k. 0),
      session_close_fault = None, driver_close_fault = None\<rparr>"

definition empty_graph :: graph where
  "empty_graph = \<lparr>nodes = [], rels = []\<rparr>"

section \<open>Specification-side notions\<close>

subsection \<open>Batches\<close>

text \<open>
  The batches of a group as the specification words them: \<open>ceil(n / batchSize)\<close> consecutive
  slices of the rows, the k-th being rows \<open>k * batchSize\<close> up to \<open>(k + 1) * batchSize\<close>.
\<close>

definition batches :: "nat \<Rightarrow> 'a list \<Rightarrow> 'a list list" where
  "batches batchSize rs =
     map (\<lambda>k. take batchSize (drop (k * batchSize) rs))
       [0..<(length rs + batchSize - 1) div batchSize]"

subsection \<open>Events\<close>

text \<open>The percents of the progress events of a stream, in the order of emission.\<close>

fun percents :: "event list \<Rightarrow> rat list" where
  "percents [] = []"
| "percents (Progress p m # es) = p # percents es"
| "percents (e # es) = percents es"

text \<open>A terminal event is an error or a summary.\<close>

fun is_terminal :: "event \<Rightarrow> bool" where
  "is_terminal (Progress p m) = False"
| "is_terminal e = True"

fun is_summary :: "event \<Rightarrow> bool" where
  "is_summary (DataEvent ok n k m) = True"
| "is_summary e = False"

text \<open>The detail strings of the error events of a stream.\<close>

fun error_details :: "event list \<Rightarrow> string list" where
  "error_details [] = []"
| "error_details (ErrorEvent m (Some d) # es) = d @ error_details es"
| "error_details (e # es) = error_details es"

subsection \<open>Rows and files\<close>

text \<open>A row has a grouping-key value when \<^verbatim>\<open>row[key]\<close> is neither absent nor empty.\<close>

definition keyed :: "string \<Rightarrow> row \<Rightarrow> bool" where
  "keyed key r \<longleftrightarrow> \<not> falsy (map_of r key)"

text \<open>An uploaded file, and a parsed file, without the rows that have no key value.\<close>

definition drop_keyless :: "string \<Rightarrow> upload_file \<Rightarrow> upload_file" where
  "drop_keyless key f =
     f\<lparr>content :=
         (case content f of
            ReadThrows e \<Rightarrow> ReadThrows e
          | ParseResult flds data \<Rightarrow> ParseResult flds (filter (keyed key) data))\<rparr>"

definition drop_parsed :: "string \<Rightarrow> parsed_csv \<Rightarrow> parsed_csv" where
  "drop_parsed key p =
     p\<lparr>rows := filter (keyed key) (rows p), rowCount := length (filter (keyed key) (rows p))\<rparr>"

text \<open>\<^verbatim>\<open>parseResult.meta.fields || []\<close> of a file that was read and parsed.\<close>

definition file_headers :: "upload_file \<Rightarrow> string list" where
  "file_headers f =
     (case content f of
        ReadThrows e \<Rightarrow> []
      | ParseResult flds data \<Rightarrow> (case flds of None \<Rightarrow> [] | Some h \<Rightarrow> h))"

definition parsed_ok :: "upload_file \<Rightarrow> bool" where
  "parsed_ok f = (case content f of ReadThrows e \<Rightarrow> False | ParseResult flds data \<Rightarrow> True)"

text \<open>A node CSV whose headers lack the \<^verbatim>\<open>LABEL\<close> column, and one that passes validation.\<close>

definition lacks_label :: "upload_file \<Rightarrow> bool" where
  "lacks_label f \<longleftrightarrow> parsed_ok f \<and> \<not> List.member (file_headers f) ''LABEL''"

definition valid_node_file :: "upload_file \<Rightarrow> bool" where
  "valid_node_file f \<longleftrightarrow> parsed_ok f \<and> List.member (file_headers f) ''LABEL''"

text \<open>The error event of the \<^verbatim>\<open>LABEL\<close> check.\<close>

definition label_error :: "upload_file \<Rightarrow> event" where
  "label_error f =
     ErrorEvent (''File \"'' @ name f @ ''\" is missing required \"LABEL\" column'')
       (Some [''The CSV file must have a column named \"LABEL\" for the node type.'',
              ''Found columns: '' @ join '', '' (file_headers f)])"

text \<open>The property keys of a relationship batch: the keys of its first row that are not
  required columns.\<close>

definition rel_keys :: "row \<Rightarrow> string list" where
  "rel_keys sampleRow = filter (\<lambda>key. \<not> List.member REQUIRED_COLUMNS key) (map fst sampleRow)"

text \<open>The percent sent after a relationship batch, \<open>k\<close> rows of \<open>n\<close> being processed.\<close>

definition rel_percent :: "nat \<Rightarrow> nat \<Rightarrow> rat" where
  "rel_percent k n = math_round (30 + (of_nat k / of_nat n) * 65)"

text \<open>The number of rows in all groups.\<close>

definition group_size :: "groups \<Rightarrow> nat" where
  "group_size m = sum_list (map (\<lambda>kv. length (snd kv)) m)"

text \<open>Every row of every group comes from the rows \<open>rs\<close> and carries the key of its group,
  which is not empty; in the node route the row was stripped of its \<^verbatim>\<open>LABEL\<close>.\<close>

definition type_groups_of :: "row list \<Rightarrow> groups \<Rightarrow> bool" where
  "type_groups_of rs m \<longleftrightarrow>
     list_all (\<lambda>kv. fst kv \<noteq> []
        \<and> list_all (\<lambda>r. r \<in> set rs \<and> map_of r ''TYPE'' = Some (fst kv)) (snd kv)) m"

definition label_groups_of :: "row list \<Rightarrow> groups \<Rightarrow> bool" where
  "label_groups_of rs m \<longleftrightarrow>
     list_all (\<lambda>kv. fst kv \<noteq> []
        \<and> list_all (\<lambda>p. \<exists>r \<in> set rs. map_of r ''LABEL'' = Some (fst kv)
                            \<and> p = filter (\<lambda>c. fst c \<noteq> ''LABEL'') r) (snd kv)) m"

text \<open>A row without the key \<^verbatim>\<open>LABEL\<close>, and groups of such rows.\<close>

definition no_label_key :: "row \<Rightarrow> bool" where
  "no_label_key r \<longleftrightarrow> ''LABEL'' \<notin> fst ` set r"

definition stripped :: "groups \<Rightarrow> bool" where
  "stripped m \<longleftrightarrow> list_all (\<lambda>kv. list_all no_label_key (snd kv)) m"

subsection \<open>Sample inputs\<close>

definition sample_connection :: connection where
  "sample_connection =
     \<lparr>connectionUrl = Some ''bolt://localhost:7687'', username = Some ''neo4j'',
      password = Some ''secret''\<rparr>"

text \<open>\<^verbatim>\<open>id,LABEL,name\n1,Person,Ann\n2,Person,Bo\n\<close>\<close>

definition people_csv :: upload_file where
  "people_csv =
     \<lparr>name = ''people.csv'',
      content = ParseResult (Some [''id'', ''LABEL'', ''name''])
        [[(''id'', ''1''), (''LABEL'', ''Person''), (''name'', ''Ann'')],
         [(''id'', ''2''), (''LABEL'', ''Person''), (''name'', ''Bo'')]]\<rparr>"

text \<open>\<^verbatim>\<open>TYPE,FROM_LABEL,FROM_ID,TO_LABEL,TO_ID\nKNOWS,Person,1,Person,2\n\<close>\<close>

definition knows_csv :: upload_file where
  "knows_csv =
     \<lparr>name = ''knows.csv'',
      content = ParseResult (Some [''TYPE'', ''FROM_LABEL'', ''FROM_ID'', ''TO_LABEL'', ''TO_ID''])
        [[(''TYPE'', ''KNOWS''), (''FROM_LABEL'', ''Person''), (''FROM_ID'', ''1''),
          (''TO_LABEL'', ''Person''), (''TO_ID'', ''2'')]]\<rparr>"

text \<open>The graph that uploading \<open>people_csv\<close> into an empty store leaves.\<close>

definition people_graph :: graph where
  "people_graph =
     \<lparr>nodes = [\<lparr>node_labels = [''Person''], node_props = [(''id'', ''1''), (''name'', ''Ann'')]\<rparr>,
               \<lparr>node_labels = [''Person''], node_props = [(''id'', ''2''), (''name'', ''Bo'')]\<rparr>],
      rels = []\<rparr>"

text \<open>
  A store whose first commit fails with a transient error (a deadlock with another
  transaction, a change of leader), which the driver answers by a new attempt.
\<close>

definition flaky_commit :: env where
  "flaky_commit =
     no_faults\<lparr>commit_fault :=
                  (\<lambda>k. if k = 0 then Some (Neo4jError ''DeadlockDetected'' True) else None),
               retry_limit := (\<lambda>k. 1)\<rparr>"

text \<open>\<^verbatim>\<open>id,name\n\<close>\<close>

definition id_name_csv :: upload_file where
  "id_name_csv = \<lparr>name = ''plain.csv'', content = ParseResult (Some [''id'', ''name'']) []\<rparr>"

text \<open>A file in which the parser found no header.\<close>

definition headerless_csv :: upload_file where
  "headerless_csv = \<lparr>name = ''empty.csv'', content = ParseResult (Some []) []\<rparr>"

text \<open>A file with three rows, of which only the first has a \<^verbatim>\<open>LABEL\<close>, and one with two rows,
  of which only the first has a \<^verbatim>\<open>TYPE\<close>.\<close>

definition gappy_node_rows :: "row list" where
  "gappy_node_rows =
     [[(''id'', ''1''), (''LABEL'', ''Person'')],
      [(''id'', ''2''), (''LABEL'', [])],
      [(''id'', ''3'')]]"

definition gappy_nodes_csv :: upload_file where
  "gappy_nodes_csv =
     \<lparr>name = ''gappy.csv'', content = ParseResult (Some [''id'', ''LABEL'']) gappy_node_rows\<rparr>"

definition gappy_rel_rows :: "row list" where
  "gappy_rel_rows =
     [[(''TYPE'', ''KNOWS''), (''FROM_LABEL'', ''Person''), (''FROM_ID'', ''1''),
       (''TO_LABEL'', ''Person''), (''TO_ID'', ''2'')],
      [(''TYPE'', []), (''FROM_LABEL'', ''Person''), (''FROM_ID'', ''2''),
       (''TO_LABEL'', ''Person''), (''TO_ID'', ''1'')]]"

definition gappy_rels_csv :: upload_file where
  "gappy_rels_csv =
     \<lparr>name = ''gappy-rels.csv'',
      content = ParseResult (Some [''TYPE'', ''FROM_LABEL'', ''FROM_ID'', ''TO_LABEL'', ''TO_ID''])
        gappy_rel_rows\<rparr>"

text \<open>A batch whose first row is one field short: only its second row has the column
  \<^verbatim>\<open>since\<close>.\<close>

definition ragged_batch :: "row list" where
  "ragged_batch =
     [[(''TYPE'', ''KNOWS''), (''FROM_LABEL'', ''Person''), (''FROM_ID'', ''1''),
       (''TO_LABEL'', ''Person''), (''TO_ID'', ''2'')],
      [(''TYPE'', ''KNOWS''), (''FROM_LABEL'', ''Person''), (''FROM_ID'', ''2''),
       (''TO_LABEL'', ''Person''), (''TO_ID'', ''1''), (''since'', ''2020'')]]"

text \<open>A batch whose first row has the column \<^verbatim>\<open>since\<close>; its second row is one field short
  and its third has it again. The same rows as a file.\<close>

definition dated_batch :: "row list" where
  "dated_batch =
     [[(''TYPE'', ''KNOWS''), (''FROM_LABEL'', ''Person''), (''FROM_ID'', ''1''),
       (''TO_LABEL'', ''Person''), (''TO_ID'', ''2''), (''since'', ''2020'')],
      [(''TYPE'', ''KNOWS''), (''FROM_LABEL'', ''Person''), (''FROM_ID'', ''2''),
       (''TO_LABEL'', ''Person''), (''TO_ID'', ''1'')],
      [(''TYPE'', ''KNOWS''), (''FROM_LABEL'', ''Person''), (''FROM_ID'', ''1''),
       (''TO_LABEL'', ''Person''), (''TO_ID'', ''2''), (''since'', ''2021'')]]"

definition dated_csv :: upload_file where
  "dated_csv =
     \<lparr>name = ''dated.csv'',
      content = ParseResult
        (Some [''TYPE'', ''FROM_LABEL'', ''FROM_ID'', ''TO_LABEL'', ''TO_ID'', ''since''])
        dated_batch\<rparr>"

text \<open>Two nodes carry the id 1, under different labels.\<close>

definition twins_graph :: graph where
  "twins_graph =
     \<lparr>nodes = [\<lparr>node_labels = [''Person''], node_props = [(''id'', ''1''), (''name'', ''Ann'')]\<rparr>,
               \<lparr>node_labels = [''Company''], node_props = [(''id'', ''1''), (''name'', ''Acme'')]\<rparr>,
               \<lparr>node_labels = [''Person''], node_props = [(''id'', ''2''), (''name'', ''Bo'')]\<rparr>],
      rels = []\<rparr>"

text \<open>\<^verbatim>\<open>TYPE,FROM_LABEL,FROM_ID,TO_LABEL,TO_ID\nKNOWS,Person,9,Person,2\n\<close>: no node has id 9.\<close>

definition dangling_csv :: upload_file where
  "dangling_csv =
     \<lparr>name = ''dangling.csv'',
      content = ParseResult (Some [''TYPE'', ''FROM_LABEL'', ''FROM_ID'', ''TO_LABEL'', ''TO_ID''])
        [[(''TYPE'', ''KNOWS''), (''FROM_LABEL'', ''Person''), (''FROM_ID'', ''9''),
          (''TO_LABEL'', ''Person''), (''TO_ID'', ''2'')]]\<rparr>"

subsection \<open>Assertions on statements\<close>

text \<open>From every state that satisfies \<open>P\<close> the statement \<open>f\<close> ends in a completion and a state
  that satisfy \<open>Q\<close>; \<open>post3\<close> gives one assertion for each kind of completion.\<close>

definition hoare :: "(state \<Rightarrow> bool) \<Rightarrow> 'a stmt \<Rightarrow> ('a completion \<Rightarrow> state \<Rightarrow> bool) \<Rightarrow> bool" where
  "hoare P f Q \<longleftrightarrow> (\<forall>s. P s \<longrightarrow> Q (fst (f s)) (snd (f s)))"

fun post3 :: "(state \<Rightarrow> bool) \<Rightarrow> (state \<Rightarrow> bool) \<Rightarrow> (state \<Rightarrow> bool) \<Rightarrow> 'a completion \<Rightarrow> state \<Rightarrow> bool" where
  "post3 QN QR QT (Normal v) s = QN s"
| "post3 QN QR QT Return s = QR s"
| "post3 QN QR QT (Throw e) s = QT s"

text \<open>
  Two statements run in step from related states: they complete in the same way and leave
  related states.
\<close>

definition related :: "(state \<Rightarrow> state \<Rightarrow> bool) \<Rightarrow> 'a stmt \<Rightarrow> 'a stmt \<Rightarrow> bool" where
  "related R f f' \<longleftrightarrow>
     (\<forall>s s'. R s s' \<longrightarrow> fst (f s) = fst (f' s') \<and> R (snd (f s)) (snd (f' s')))"

text \<open>The statement, run against itself, keeps \<open>P\<close>.\<close>

definition keeping :: "(state \<Rightarrow> bool) \<Rightarrow> state \<Rightarrow> state \<Rightarrow> bool" where
  "keeping P s s' \<longleftrightarrow> s' = s \<and> P s"

subsection \<open>Assertions on the stream\<close>

text \<open>The stream is open, no terminal event was sent, and the percents sent so far are
  non-decreasing and at most \<open>B\<close>.\<close>

definition open_upto :: "rat \<Rightarrow> state \<Rightarrow> bool" where
  "open_upto B s \<longleftrightarrow>
     \<not> closed s \<and> filter is_terminal (events s) = [] \<and> sorted (percents (events s))
     \<and> (\<forall>p \<in> set (percents (events s)). p \<le> B)"

text \<open>A complete stream: non-decreasing percents, one terminal event, at the end, and 100 as
  the last percent before a summary.\<close>

definition trace_ok :: "event list \<Rightarrow> bool" where
  "trace_ok es \<longleftrightarrow>
     sorted (percents es) \<and> length (filter is_terminal es) = 1 \<and> is_terminal (last es)
     \<and> (is_summary (last es) \<longrightarrow> percents es \<noteq> [] \<and> last (percents es) = 100)"

definition finished :: "state \<Rightarrow> bool" where
  "finished s \<longleftrightarrow> closed s \<and> trace_ok (events s)"

definition unsettled :: "state \<Rightarrow> bool" where
  "unsettled s \<longleftrightarrow> open_upto 100 s \<or> finished s"

text \<open>The states just before and just after the summary is enqueued.\<close>

definition at100 :: "state \<Rightarrow> bool" where
  "at100 s \<longleftrightarrow> open_upto 100 s \<and> percents (events s) \<noteq> [] \<and> last (percents (events s)) = 100"

definition summary_sent :: "state \<Rightarrow> bool" where
  "summary_sent s \<longleftrightarrow> \<not> closed s \<and> trace_ok (events s)"

text \<open>Frames: facts about the variables that the stream statements leave alone.\<close>

definition stream_free :: "(state \<Rightarrow> bool) \<Rightarrow> bool" where
  "stream_free K \<longleftrightarrow> (\<forall>s es c. K (s\<lparr>events := es, closed := c\<rparr>) = K s)"

text \<open>After parsing, \<open>totalRows\<close> is the number of parsed rows and nothing is processed yet.\<close>

definition counters_ok :: "state \<Rightarrow> bool" where
  "counters_ok s \<longleftrightarrow>
     processedRows s = 0 \<and> totalRows s = sum_list (map (\<lambda>p. length (rows p)) (parsedFiles s))"

text \<open>Facts that the calls to the driver leave alone.\<close>

definition driver_free :: "(state \<Rightarrow> bool) \<Rightarrow> bool" where
  "driver_free K \<longleftrightarrow> (\<forall>s d cs g. K (s\<lparr>driver := d, calls := cs, store := g\<rparr>) = K s)"

text \<open>The invariant of the writing phase of a relationship run with \<open>r\<close> rows still to be
  processed: the percents sent do not exceed the one of the rows processed so far, and the
  rows processed never exceed the rows parsed.\<close>

definition rel_inv :: "nat \<Rightarrow> state \<Rightarrow> bool" where
  "rel_inv r s \<longleftrightarrow>
     open_upto (rel_percent (processedRows s) (totalRows s)) s
     \<and> processedRows s + r \<le> totalRows s"

text \<open>No commit of the store fails with an error that the driver answers by a new attempt.\<close>

definition firm_commits :: "env \<Rightarrow> bool" where
  "firm_commits env \<longleftrightarrow> (\<forall>k e. commit_fault env k = Some e \<longrightarrow> \<not> retriable e)"

subsection \<open>Assertions on the driver calls\<close>

text \<open>The calls that open or close the driver or the session.\<close>

fun is_resource :: "store_op \<Rightarrow> bool" where
  "is_resource DriverOpened = True"
| "is_resource SessionOpened = True"
| "is_resource SessionClose = True"
| "is_resource DriverClose = True"
| "is_resource op = False"

definition resources :: "state \<Rightarrow> store_op list" where
  "resources s = filter is_resource (calls s)"

text \<open>A statement that opens and closes nothing, and an assertion that only speaks of what
  is open.\<close>

definition calm :: "'a stmt \<Rightarrow> bool" where
  "calm f \<longleftrightarrow> (\<forall>s. resources (snd (f s)) = resources s \<and> driver (snd (f s)) = driver s)"

definition res_only :: "(state \<Rightarrow> bool) \<Rightarrow> bool" where
  "res_only P \<longleftrightarrow> (\<forall>s s'. resources s = resources s' \<and> driver s = driver s' \<longrightarrow> P s = P s')"

definition holding :: "store_op list \<Rightarrow> bool \<Rightarrow> state \<Rightarrow> bool" where
  "holding rs d s \<longleftrightarrow> resources s = rs \<and> driver s = d"

text \<open>Everything that was opened has been closed, the session before the driver.\<close>

definition released :: "state \<Rightarrow> bool" where
  "released s \<longleftrightarrow>
     resources s \<in> {[], [DriverOpened, DriverClose],
                     [DriverOpened, SessionOpened, SessionClose, DriverClose]}"

text \<open>No call was made to the driver and the store is \<open>g\<close>; the stream is still open, or it
  was closed after a single terminal event, an error.\<close>

definition fresh :: "graph \<Rightarrow> state \<Rightarrow> bool" where
  "fresh g s \<longleftrightarrow>
     calls s = [] \<and> store s = g \<and> \<not> closed s \<and> filter is_terminal (events s) = []"

definition failed :: "graph \<Rightarrow> state \<Rightarrow> bool" where
  "failed g s \<longleftrightarrow>
     calls s = [] \<and> store s = g \<and> closed s
     \<and> (\<exists>m d. filter is_terminal (events s) = [ErrorEvent m d])"

subsection \<open>Relations between two runs\<close>

text \<open>The graph \<open>g\<close> with the nodes \<open>X\<close> put before its own and its relationships replaced.\<close>

definition rebase :: "node list \<Rightarrow> rel list \<Rightarrow> graph \<Rightarrow> graph" where
  "rebase X Rl g = \<lparr>nodes = X @ nodes g, rels = Rl\<rparr>"

definition on_graph :: "node list \<Rightarrow> rel list \<Rightarrow> state \<Rightarrow> state \<Rightarrow> bool" where
  "on_graph X Rl s s' \<longleftrightarrow> s' = s\<lparr>store := rebase X Rl (store s)\<rparr>"

text \<open>No node of the store has a property named \<^verbatim>\<open>LABEL\<close>.\<close>

definition label_free :: "state \<Rightarrow> bool" where
  "label_free s \<longleftrightarrow> (\<forall>n \<in> set (nodes (store s)). ''LABEL'' \<notin> fst ` set (node_props n))"

text \<open>Two states that differ at most in the rows without key value that were parsed and
  in the progress events sent.\<close>

definition same_writes :: "string \<Rightarrow> state \<Rightarrow> state \<Rightarrow> bool" where
  "same_writes key s s' \<longleftrightarrow>
     closed s' = closed s \<and> calls s' = calls s \<and> store s' = store s \<and> driver s' = driver s
     \<and> totalCreated s' = totalCreated s \<and> processedRows s' = processedRows s
     \<and> parsedFiles s' = map (drop_parsed key) (parsedFiles s)
     \<and> filter is_terminal (events s') = filter is_terminal (events s)"

section \<open>Properties\<close>

subsection \<open>Managed transactions\<close>

text \<open>An attempt that does not fail with a retriable error is the only one.\<close>

lemma retry_once:
  assumes "\<And>e. fst (attempt s) = Throw e \<Longrightarrow> \<not> retriable e"
  shows "retry n attempt s = attempt s"
proof (cases n)
  case 0
  then show ?thesis by simp
next
  case (Suc m)
  obtain c s' where a: "attempt s = (c, s')" by (cases "attempt s")
  show ?thesis using assms a Suc by (cases c) auto
qed

lemma executeWrite_once:
  assumes "\<And>e. fst (transaction env work s) = Throw e \<Longrightarrow> \<not> retriable e"
  shows "executeWrite env work s = transaction env work s"
  unfolding executeWrite_def using assms by (rule retry_once)

subsection \<open>The batch loop\<close>

lemma below_ceil_iff:
  assumes "0 < (bs::nat)"
  shows "j < (n + bs - 1) div bs \<longleftrightarrow> j * bs < n"
proof -
  have "j < (n + bs - 1) div bs \<longleftrightarrow> Suc j \<le> (n + bs - 1) div bs" by arith
  also have "\<dots> \<longleftrightarrow> Suc j * bs \<le> n + bs - 1"
    using assms by (simp only: less_eq_div_iff_mult_less_eq)
  also have "\<dots> \<longleftrightarrow> j * bs < n" using assms by auto
  finally show ?thesis .
qed

lemma batch_loop_from:
  assumes "0 < bs"
  shows "batch_loop bs body rs (j * bs) s =
         for_of body (map (\<lambda>k. take bs (drop (k * bs) rs)) [j..<(length rs + bs - 1) div bs]) s"
proof (induction "(length rs + bs - 1) div bs - j" arbitrary: j s)
  case 0
  then have "\<not> j < (length rs + bs - 1) div bs" by simp
  then have "\<not> j * bs < length rs" using below_ceil_iff [OF assms] by simp
  then show ?case using 0 by (simp add: batch_loop.simps [of bs body rs "j * bs"] skip_def)
next
  case (Suc d)
  then have lt: "j < (length rs + bs - 1) div bs" by simp
  then have lt': "j * bs < length rs" using below_ceil_iff [OF assms] by simp
  have d: "d = (length rs + bs - 1) div bs - Suc j" using Suc.hyps(2) by simp
  have ih: "\<And>s'. batch_loop bs body rs (j * bs + bs) s' =
         for_of body (map (\<lambda>k. take bs (drop (k * bs) rs)) [Suc j..<(length rs + bs - 1) div bs]) s'"
    using Suc.hyps(1) [OF d] by (simp add: add.commute)
  show ?case
    using lt lt' assms
    by (simp add: batch_loop.simps [of bs body rs "j * bs"] upt_conv_Cons slice_def seq_def
          bind_def ih split: prod.splits completion.splits)
qed

lemma batch_loop_batches:
  "0 < bs \<Longrightarrow> batch_loop bs body rs 0 = for_of body (batches bs rs)"
  using batch_loop_from [of bs body rs 0] by (auto simp: batches_def)

lemma concat_batches_from:
  assumes "0 < bs"
  shows "concat (map (\<lambda>k. take bs (drop (k * bs) rs)) [j..<(length rs + bs - 1) div bs])
         = drop (j * bs) rs"
proof (induction "(length rs + bs - 1) div bs - j" arbitrary: j)
  case 0
  then have "\<not> j < (length rs + bs - 1) div bs" by simp
  then have "\<not> j * bs < length rs" using below_ceil_iff [OF assms] by simp
  then show ?case using 0 by simp
next
  case (Suc d)
  then have lt: "j < (length rs + bs - 1) div bs" by simp
  have d: "d = (length rs + bs - 1) div bs - Suc j" using Suc.hyps(2) by simp
  have "drop (j * bs) rs = take bs (drop (j * bs) rs) @ drop (bs + j * bs) rs"
    by (metis append_take_drop_id drop_drop)
  then show ?case using lt Suc.hyps(1) [OF d] by (simp add: upt_conv_Cons)
qed

lemma concat_batches: "0 < bs \<Longrightarrow> concat (batches bs rs) = rs"
  using concat_batches_from [of bs rs 0] by (simp add: batches_def)

lemma node_label_rows_batches:
  "node_label_rows env (label, rs) = for_of (node_batch env label) (batches 1000 rs)"
  by (simp add: node_label_rows_def node_batchSize_def batch_loop_batches)

lemma rel_type_rows_batches:
  "rel_type_rows env (type, rs) = for_of (rel_batch env type) (batches 5000 rs)"
  by (simp add: rel_type_rows_def rel_batchSize_def batch_loop_batches)

lemma node_batch_no_faults_calls:
  "calls (snd (for_of (node_batch no_faults label) bs s))
   = calls s @ map (TxRun (CreateNodes label)) bs"
proof (induction bs arbitrary: s)
  case Nil
  show ?case by (simp add: skip_def)
next
  case (Cons b bs)
  have step: "\<exists>s'. node_batch no_faults label b s = (Normal (), s')
                 \<and> calls s' = calls s @ [TxRun (CreateNodes label) b]"
    by (simp add: node_batch_def node_batch_tx_def executeWrite_def transaction_def bind_def
          tx_run_def no_faults_def Let_def add_totalCreated_def split: prod.splits)
  then obtain s' where s': "node_batch no_faults label b s = (Normal (), s')"
    "calls s' = calls s @ [TxRun (CreateNodes label) b]" by blast
  show ?case using Cons.IH [of s'] s' by (simp add: seq_def bind_def)
qed

text \<open>
  C3. The batch loop of a group invokes the batch transaction on
  \<open>ceil(n / batchSize)\<close> consecutive slices of the group's rows, in row order (\<open>for_of\<close> runs
  its body on each element in turn, as long as the body completes normally); the slices
  together are the rows; the batch size is the constant 1000 in the node route and 5000 in
  the relationship route; a store that never throws receives exactly one node statement
  per slice; and 2500 rows give three batches of 1000, 1000 and 500 rows.
\<close>

theorem batch_slicing:
  "node_label_rows env (label, rs) = for_of (node_batch env label) (batches 1000 rs)
   \<and> rel_type_rows env (type, rs) = for_of (rel_batch env type) (batches 5000 rs)
   \<and> batches 1000 rs = map (\<lambda>k. take 1000 (drop (k * 1000) rs)) [0..<(length rs + 999) div 1000]
   \<and> batches 5000 rs = map (\<lambda>k. take 5000 (drop (k * 5000) rs)) [0..<(length rs + 4999) div 5000]
   \<and> concat (batches 1000 rs) = rs
   \<and> concat (batches 5000 rs) = rs
   \<and> calls (snd (node_label_rows no_faults (label, rs) s))
       = calls s @ map (TxRun (CreateNodes label)) (batches 1000 rs)
   \<and> map length (batches 1000 (replicate 2500 r)) = [1000, 1000, 500]"
proof -
  have c1: "batches 1000 rs
      = map (\<lambda>k. take 1000 (drop (k * 1000) rs)) [0..<(length rs + 999) div 1000]"
    by (simp add: batches_def add.commute)
  have c2: "batches 5000 rs
      = map (\<lambda>k. take 5000 (drop (k * 5000) rs)) [0..<(length rs + 4999) div 5000]"
    by (simp add: batches_def add.commute)
  have c3: "concat (batches 1000 rs) = rs" and c4: "concat (batches 5000 rs) = rs"
    by (simp_all add: concat_batches)
  have c5: "calls (snd (node_label_rows no_faults (label, rs) s))
       = calls s @ map (TxRun (CreateNodes label)) (batches 1000 rs)"
    by (simp only: node_label_rows_batches node_batch_no_faults_calls)
  have c6: "map length (batches 1000 (replicate 2500 r)) = [1000, 1000, 500]"
    by (simp add: batches_def upt_conv_Cons)
  from node_label_rows_batches rel_type_rows_batches c1 c2 c3 c4 c5 c6
  show ?thesis by blast
qed

subsection \<open>Progress of the writing phase\<close>

text \<open>
  C7. In the node route the writing phase emits no progress event: a run on one file of
  two rows writes one batch, yet its percents jump from 25 to 95 and \<open>processedRows\<close>
  is never advanced. Progress after every batch exists in the relationship route only.
\<close>

theorem node_run_no_batch_progress:
  "(let s = snd (upload_nodes no_faults [people_csv] sample_connection (init_state empty_graph))
    in percents (events s) = [5, 5, 15, 20, 25, 95, 100]
       \<and> length (filter is_tx_run (calls s)) = 1
       \<and> processedRows s = 0)"
  by code_simp

subsection \<open>Percents that are not integers\<close>

lemma twenty_five_thirds_not_int: "(25 / 3 :: rat) \<notin> \<int>"
proof
  assume "(25 / 3 :: rat) \<in> \<int>"
  then obtain z :: int where "(25 / 3 :: rat) = of_int z" by (auto elim: Ints_cases)
  then have "(25::rat) = of_int (3 * z)" by simp
  then have "(25::int) = 3 * z" by (metis of_int_eq_iff of_int_numeral)
  then show False by presburger
qed

text \<open>
  C8. With three input files the second parsing event carries \<open>5 + (1 / 3) * 10 = 25 / 3\<close>,
  which is not an integer: the parsing percents are not rounded.
\<close>

theorem three_files_fractional_percent:
  "percents (events (snd (upload_nodes no_faults [people_csv, people_csv, people_csv]
       sample_connection (init_state empty_graph))))
     = [5, 5, 25 / 3, 35 / 3, 15, 20, 25, 95, 100]
   \<and> (25 / 3 :: rat) \<notin> \<int>"
proof -
  have "percents (events (snd (upload_nodes no_faults [people_csv, people_csv, people_csv]
       sample_connection (init_state empty_graph))))
     = [5, 5, 25 / 3, 35 / 3, 15, 20, 25, 95, 100]"
    by code_simp
  then show ?thesis using twenty_five_thirds_not_int by blast
qed

subsection \<open>Rules for statements\<close>

lemma hoareI: "(\<And>s. P s \<Longrightarrow> Q (fst (f s)) (snd (f s))) \<Longrightarrow> hoare P f Q"
  by (simp add: hoare_def)

lemma hoareD: "hoare P f Q \<Longrightarrow> P s \<Longrightarrow> Q (fst (f s)) (snd (f s))"
  by (simp add: hoare_def)

lemma hoare_pre:
  assumes "hoare P f Q" and "\<And>s. P' s \<Longrightarrow> P s"
  shows "hoare P' f Q"
  using assms by (simp add: hoare_def)

lemma post3_mono:
  assumes "post3 QN QR QT c s" and "\<And>s. QN s \<Longrightarrow> QN' s" and "\<And>s. QR s \<Longrightarrow> QR' s" and "\<And>s. QT s \<Longrightarrow> QT' s"
  shows "post3 QN' QR' QT' c s"
  using assms by (cases c) auto

lemma hoare_post3_conseq:
  assumes "hoare P f (post3 QN QR QT)"
    and "\<And>s. P' s \<Longrightarrow> P s" and "\<And>s. QN s \<Longrightarrow> QN' s" and "\<And>s. QR s \<Longrightarrow> QR' s" and "\<And>s. QT s \<Longrightarrow> QT' s"
  shows "hoare P' f (post3 QN' QR' QT')"
proof (rule hoareI)
  fix s assume "P' s"
  then have "P s" by (rule assms(2))
  then have "post3 QN QR QT (fst (f s)) (snd (f s))" using assms(1) by (rule hoareD [rotated])
  then show "post3 QN' QR' QT' (fst (f s)) (snd (f s))"
    by (rule post3_mono) (erule assms(3) assms(4) assms(5))+
qed

lemma hoare_bind:
  assumes "hoare P f (post3 Q QR QT)" and "\<And>v. hoare Q (g v) (post3 R QR QT)"
  shows "hoare P (bind f g) (post3 R QR QT)"
proof (rule hoareI)
  fix s assume "P s"
  obtain c s' where fs: "f s = (c, s')" by (cases "f s")
  have a: "post3 Q QR QT c s'" using hoareD [OF assms(1) \<open>P s\<close>] fs by simp
  show "post3 R QR QT (fst (bind f g s)) (snd (bind f g s))"
  proof (cases c)
    case (Normal v)
    then have "Q s'" using a by simp
    then have "post3 R QR QT (fst (g v s')) (snd (g v s'))"
      using assms(2) [of v] by (rule hoareD [rotated])
    then show ?thesis using Normal fs by (simp add: bind_def)
  next
    case Return
    then show ?thesis using a fs by (simp add: bind_def)
  next
    case (Throw e)
    then show ?thesis using a fs by (simp add: bind_def)
  qed
qed

lemma hoare_seq:
  assumes "hoare P f (post3 Q QR QT)" and "hoare Q g (post3 R QR QT)"
  shows "hoare P (seq f g) (post3 R QR QT)"
  unfolding seq_def using assms by (rule hoare_bind)

lemma hoare_skip: "hoare P skip (post3 P QR QT)"
  by (simp add: hoare_def skip_def)

lemma hoare_try_catch:
  assumes "hoare P body (post3 QN QR QT)" and "\<And>e. hoare QT (handler e) (post3 QN QR QT')"
  shows "hoare P (try_catch body handler) (post3 QN QR QT')"
proof (rule hoareI)
  fix s assume "P s"
  obtain c s' where bs: "body s = (c, s')" by (cases "body s")
  have a: "post3 QN QR QT c s'" using hoareD [OF assms(1) \<open>P s\<close>] bs by simp
  show "post3 QN QR QT' (fst (try_catch body handler s)) (snd (try_catch body handler s))"
  proof (cases c)
    case (Throw e)
    then have "QT s'" using a by simp
    then have "post3 QN QR QT' (fst (handler e s')) (snd (handler e s'))"
      using assms(2) [of e] by (rule hoareD [rotated])
    then show ?thesis using Throw bs by (simp add: try_catch_def)
  next
    case Return
    then show ?thesis using a bs by (simp add: try_catch_def)
  next
    case (Normal v)
    then show ?thesis using a bs by (simp add: try_catch_def)
  qed
qed

lemma hoare_try_finally:
  assumes "hoare P body (post3 QN QR QT)"
    and "hoare QN fin (post3 QN' QR' QT')"
    and "hoare QR fin (post3 QR' QR' QT')"
    and "hoare QT fin (post3 QT' QR' QT')"
  shows "hoare P (try_finally body fin) (post3 QN' QR' QT')"
proof (rule hoareI)
  fix s assume "P s"
  then have a: "post3 QN QR QT (fst (body s)) (snd (body s))" using assms(1) by (rule hoareD [rotated])
  obtain c s' where b: "body s = (c, s')" by (cases "body s")
  obtain c' s'' where f: "fin s' = (c', s'')" by (cases "fin s'")
  show "post3 QN' QR' QT' (fst (try_finally body fin s)) (snd (try_finally body fin s))"
  proof (cases c)
    case (Normal v)
    then have "QN s'" using a b by simp
    then have "post3 QN' QR' QT' c' s''" using hoareD [OF assms(2), of s'] f by simp
    then show ?thesis using Normal b f by (cases c') (simp_all add: try_finally_def)
  next
    case Return
    then have "QR s'" using a b by simp
    then have "post3 QR' QR' QT' c' s''" using hoareD [OF assms(3), of s'] f by simp
    then show ?thesis using Return b f by (cases c') (simp_all add: try_finally_def)
  next
    case (Throw e)
    then have "QT s'" using a b by simp
    then have "post3 QT' QR' QT' c' s''" using hoareD [OF assms(4), of s'] f by simp
    then show ?thesis using Throw b f by (cases c') (simp_all add: try_finally_def)
  qed
qed

lemma hoare_for_of:
  assumes "\<And>x rest. hoare (I (x # rest)) (body x) (post3 (I rest) QR QT)"
  shows "hoare (I xs) (for_of body xs) (post3 (I []) QR QT)"
proof (induction xs)
  case Nil
  show ?case by (simp add: hoare_skip)
next
  case (Cons x xs)
  show ?case by (simp only: for_of.simps) (rule hoare_seq [OF assms Cons.IH])
qed

lemma hoare_for_index:
  assumes "\<And>i x rest. hoare (I i (x # rest)) (body i x) (post3 (I (Suc i) rest) QR QT)"
  shows "hoare (I i xs) (for_index body i xs) (post3 (I (i + length xs) []) QR QT)"
proof (induction xs arbitrary: i)
  case Nil
  show ?case by (simp add: hoare_skip)
next
  case (Cons x xs)
  have "hoare (I (Suc i) xs) (for_index body (Suc i) xs) (post3 (I (i + length (x # xs)) []) QR QT)"
    using Cons.IH [of "Suc i"] by simp
  then show ?case by (simp only: for_index.simps) (rule hoare_seq [OF assms])
qed

lemma hoare_block_Cons:
  assumes "hoare P f (post3 Q QR QT)" and "hoare Q (block fs) (post3 R QR QT)"
  shows "hoare P (block (f # fs)) (post3 R QR QT)"
  by (simp only: block.simps) (rule hoare_seq [OF assms])

lemma hoare_block_Nil: "hoare P (block []) (post3 P QR QT)"
  by (simp add: hoare_skip)

lemma hoare_reading:
  assumes "\<And>s0. hoare (\<lambda>s. P s \<and> s = s0) (f s0) Q"
  shows "hoare P (reading f) Q"
  using assms by (simp add: hoare_def reading_def)

lemma hoare_if:
  assumes "b \<Longrightarrow> hoare P f Q" and "\<not> b \<Longrightarrow> hoare P g Q"
  shows "hoare P (if b then f else g) Q"
  using assms by simp

text \<open>
  A managed transaction: whatever holds before an attempt and again after every attempt
  that failed with a retriable error holds before every attempt.
\<close>

lemma hoare_retry:
  assumes "\<And>s c s'. I s \<Longrightarrow> attempt s = (c, s')
             \<Longrightarrow> post3 QN QR QT c s' \<and> (\<forall>e. c = Throw e \<and> retriable e \<longrightarrow> I s')"
  shows "hoare I (retry n attempt) (post3 QN QR QT)"
proof (induction n)
  case 0
  show ?case
  proof (rule hoareI)
    fix s assume i: "I s"
    obtain c s' where a: "attempt s = (c, s')" by (cases "attempt s")
    from assms [OF i a] a
    show "post3 QN QR QT (fst (retry 0 attempt s)) (snd (retry 0 attempt s))" by simp
  qed
next
  case (Suc n)
  show ?case
  proof (rule hoareI)
    fix s assume i: "I s"
    obtain c s' where a: "attempt s = (c, s')" by (cases "attempt s")
    note p = assms [OF i a]
    show "post3 QN QR QT (fst (retry (Suc n) attempt s)) (snd (retry (Suc n) attempt s))"
    proof (cases c)
      case (Throw e)
      show ?thesis
      proof (cases "retriable e")
        case True
        then have "I s'" using p Throw by simp
        from hoareD [OF Suc.IH this] show ?thesis using a Throw True by simp
      next
        case False
        then show ?thesis using p a Throw by simp
      qed
    qed (use p a in simp_all)
  qed
qed

lemma hoare_executeWrite:
  assumes "\<And>s c s'. I s \<Longrightarrow> transaction env work s = (c, s')
             \<Longrightarrow> post3 QN QR QT c s' \<and> (\<forall>e. c = Throw e \<and> retriable e \<longrightarrow> I s')"
  shows "hoare I (executeWrite env work) (post3 QN QR QT)"
proof (rule hoareI)
  fix s assume "I s"
  from hoareD [OF hoare_retry [of I "transaction env work" QN QR QT, OF assms] this]
  show "post3 QN QR QT (fst (executeWrite env work s)) (snd (executeWrite env work s))"
    by (simp add: executeWrite_def)
qed

subsection \<open>Sizes of the groups\<close>

lemma map_has_set: "map_has (map_set m k v) k"
  by (induction m) auto

lemma group_size_set_new: "\<not> map_has m k \<Longrightarrow> group_size (map_set m k []) = group_size m"
  by (induction m) (auto simp: group_size_def)

lemma group_size_push: "map_has m k \<Longrightarrow> group_size (map_push m k r) = Suc (group_size m)"
  by (induction m) (auto simp: group_size_def)

lemma group_size_rel_step:
  "group_size (rel_group_step m r)
   = group_size m + (if falsy (map_of r ''TYPE'') then 0 else 1)"
  by (simp add: rel_group_step_def Let_def group_size_push map_has_set group_size_set_new)

lemma group_size_node_step:
  "group_size (node_group_step m r)
   = group_size m + (if falsy (map_of r ''LABEL'') then 0 else 1)"
  by (simp add: node_group_step_def Let_def group_size_push map_has_set group_size_set_new)

lemma group_size_foldl_rel:
  "group_size (foldl rel_group_step m rs)
   = group_size m + length (filter (\<lambda>r. \<not> falsy (map_of r ''TYPE'')) rs)"
  by (induction rs arbitrary: m) (simp_all add: group_size_rel_step)

lemma group_size_foldl_node:
  "group_size (foldl node_group_step m rs)
   = group_size m + length (filter (\<lambda>r. \<not> falsy (map_of r ''LABEL'')) rs)"
  by (induction rs arbitrary: m) (simp_all add: group_size_node_step)

lemma group_size_by_type:
  "group_size (group_by_type rs) = length (filter (\<lambda>r. \<not> falsy (map_of r ''TYPE'')) rs)"
  by (simp add: group_by_type_def group_size_foldl_rel) (simp add: group_size_def)

lemma group_size_by_label:
  "group_size (group_by_label rs) = length (filter (\<lambda>r. \<not> falsy (map_of r ''LABEL'')) rs)"
  by (simp add: group_by_label_def group_size_foldl_node) (simp add: group_size_def)

lemma group_size_by_type_le: "group_size (group_by_type rs) \<le> length rs"
  by (simp add: group_size_by_type)

lemma foldl_skip:
  assumes "\<And>a x. \<not> P x \<Longrightarrow> f a x = a"
  shows "foldl f a (filter P xs) = foldl f a xs"
  by (induction xs arbitrary: a) (simp_all add: assms)

lemma group_by_type_filter:
  "group_by_type (filter (\<lambda>r. \<not> falsy (map_of r ''TYPE'')) rs) = group_by_type rs"
  unfolding group_by_type_def by (rule foldl_skip) (simp add: rel_group_step_def)

lemma group_by_label_filter:
  "group_by_label (filter (\<lambda>r. \<not> falsy (map_of r ''LABEL'')) rs) = group_by_label rs"
  unfolding group_by_label_def by (rule foldl_skip) (simp add: node_group_step_def)

subsection \<open>The stream of a run\<close>

lemma percents_append: "percents (es @ es') = percents es @ percents es'"
  by (induction es rule: percents.induct) auto

lemma open_upto_mono: "open_upto B s \<Longrightarrow> B \<le> B' \<Longrightarrow> open_upto B' s"
  by (auto simp: open_upto_def)

lemma open_upto_unsettled: "open_upto B s \<Longrightarrow> B \<le> 100 \<Longrightarrow> unsettled s"
  by (auto simp: unsettled_def intro: open_upto_mono)

lemma finished_unsettled: "finished s \<Longrightarrow> unsettled s"
  by (simp add: unsettled_def)

lemma stream_free_events: "stream_free K \<Longrightarrow> K (s\<lparr>events := es\<rparr>) = K s"
proof -
  assume a: "stream_free K"
  have "s\<lparr>events := es\<rparr> = s\<lparr>events := es, closed := closed s\<rparr>" by simp
  then show ?thesis using a unfolding stream_free_def by metis
qed

lemma sendProgress_open:
  assumes "B \<le> p" and "stream_free K"
  shows "hoare (\<lambda>s. open_upto B s \<and> K s) (sendProgress p m) (post3 (\<lambda>s. open_upto p s \<and> K s) QR QT)"
  using assms(1)
  by (auto simp: hoare_def sendProgress_def enqueue_def open_upto_def percents_append sorted_append
        stream_free_events [OF assms(2)])

lemma send_error_unsettled:
  "hoare unsettled (send_error m d) (post3 finished finished finished)"
  by (auto simp: hoare_def send_error_def seq_def bind_def enqueue_def controller_close_def
        open_upto_def finished_def trace_ok_def percents_append unsettled_def)

lemma send_error_return_unsettled:
  "hoare unsettled (seq (send_error m d) return_stmt) (post3 QN finished finished)"
  by (auto simp: hoare_def send_error_def seq_def bind_def enqueue_def controller_close_def
        open_upto_def finished_def trace_ok_def percents_append unsettled_def return_stmt_def)

lemma send_error_return_open:
  "hoare (\<lambda>s. open_upto B s \<and> K s) (seq (send_error m d) return_stmt) (post3 QN finished QT)"
  by (auto simp: hoare_def send_error_def seq_def bind_def enqueue_def controller_close_def
        open_upto_def finished_def trace_ok_def percents_append return_stmt_def)

lemma stream_free_counters_ok: "stream_free counters_ok"
  by (simp add: stream_free_def counters_ok_def)

lemma parse_percent_mono:
  "(5 + (of_nat i / of_nat n) * 10 :: rat) \<le> 5 + (of_nat (Suc i) / of_nat n) * 10"
  by (simp add: divide_right_mono)

lemma parse_percent_le: "i \<le> n \<Longrightarrow> (5 + (of_nat i / of_nat n) * 10 :: rat) \<le> 15"
proof -
  assume "i \<le> n"
  then have "(of_nat i / of_nat n :: rat) \<le> 1"
    by (cases "n = 0") (simp_all add: divide_le_eq_1)
  then have "(of_nat i / of_nat n :: rat) * 10 \<le> 1 * 10"
    by (rule mult_right_mono) simp
  then show ?thesis by linarith
qed

lemma push_parsed_open:
  assumes "rowCount p = length (rows p)"
  shows "hoare (\<lambda>s. open_upto B s \<and> counters_ok s) (push_parsed p)
           (post3 (\<lambda>s. open_upto B s \<and> counters_ok s) QR QT)"
  using assms by (auto simp: hoare_def push_parsed_def open_upto_def counters_ok_def)

lemma throw_open:
  "B \<le> 100 \<Longrightarrow> hoare (\<lambda>s. open_upto B s \<and> K s) (throw e) (post3 QN QR unsettled)"
  by (auto simp: hoare_def throw_def intro: open_upto_unsettled)

lemma parse_file_shape:
  assumes "i < n"
    and rest: "hoare (\<lambda>s. open_upto (5 + (of_nat i / of_nat n) * 10) s \<and> counters_ok s) rest
       (post3 (\<lambda>s. open_upto (5 + (of_nat i / of_nat n) * 10) s \<and> counters_ok s) finished unsettled)"
  shows "hoare (\<lambda>s. open_upto (5 + (of_nat i / of_nat n) * 10) s \<and> counters_ok s)
           (try_catch (seq (sendProgress (5 + (of_nat i / of_nat n) * 10) m) rest)
              (\<lambda>e. seq (send_error m' (d' e)) return_stmt))
           (post3 (\<lambda>s. open_upto (5 + (of_nat (Suc i) / of_nat n) * 10) s \<and> counters_ok s)
              finished unsettled)"
proof -
  let ?p = "5 + (of_nat i / of_nat n) * 10 :: rat"
  let ?P = "\<lambda>s. open_upto ?p s \<and> counters_ok s"
  have body: "hoare ?P (seq (sendProgress ?p m) rest) (post3 ?P finished unsettled)"
    by (rule hoare_seq [OF sendProgress_open [OF order_refl stream_free_counters_ok] rest])
  have "hoare ?P (try_catch (seq (sendProgress ?p m) rest)
              (\<lambda>e. seq (send_error m' (d' e)) return_stmt)) (post3 ?P finished unsettled)"
    by (rule hoare_try_catch [OF body])
       (rule hoare_post3_conseq [OF send_error_return_unsettled], simp_all add: finished_unsettled)
  then show ?thesis
    by (rule hoare_post3_conseq) (blast intro: open_upto_mono [OF _ parse_percent_mono])+
qed

lemma parse_node_file_triple:
  assumes "i < n"
  shows "hoare (\<lambda>s. open_upto (5 + (of_nat i / of_nat n) * 10) s \<and> counters_ok s)
           (parse_node_file n i file)
           (post3 (\<lambda>s. open_upto (5 + (of_nat (Suc i) / of_nat n) * 10) s \<and> counters_ok s)
              finished unsettled)"
  unfolding parse_node_file_def
proof (rule parse_file_shape [OF assms])
  let ?p = "5 + (of_nat i / of_nat n) * 10 :: rat"
  have p100: "?p \<le> 100" using parse_percent_le [of i n] assms by linarith
  show "hoare (\<lambda>s. open_upto ?p s \<and> counters_ok s)
       (case content file of
          ReadThrows e \<Rightarrow> throw e
        | ParseResult flds data \<Rightarrow>
            (let hs = (case flds of None \<Rightarrow> [] | Some h \<Rightarrow> h) in
             if length hs = 0 then
               seq (send_error (''File \"'' @ name file @ ''\" has no headers'')
                      (Some [''The CSV file must have a header row with column names.'']))
                   return_stmt
             else if \<not> List.member hs ''LABEL'' then
               seq (send_error
                      (''File \"'' @ name file @ ''\" is missing required \"LABEL\" column'')
                      (Some [''The CSV file must have a column named \"LABEL\" for the node type.'',
                             ''Found columns: '' @ join '', '' hs]))
                   return_stmt
             else
               push_parsed \<lparr>fileName = name file, headers = hs, rows = data,
                            rowCount = length data\<rparr>))
       (post3 (\<lambda>s. open_upto ?p s \<and> counters_ok s) finished unsettled)"
  proof (cases "content file")
    case (ReadThrows e)
    then show ?thesis by (simp only: file_read.case) (rule throw_open [OF p100])
  next
    case (ParseResult flds data)
    then show ?thesis
      by (simp only: file_read.case Let_def)
         (intro hoare_if send_error_return_open push_parsed_open, simp)
  qed
qed

lemma parse_rel_file_triple:
  assumes "i < n"
  shows "hoare (\<lambda>s. open_upto (5 + (of_nat i / of_nat n) * 10) s \<and> counters_ok s)
           (parse_rel_file n i file)
           (post3 (\<lambda>s. open_upto (5 + (of_nat (Suc i) / of_nat n) * 10) s \<and> counters_ok s)
              finished unsettled)"
  unfolding parse_rel_file_def
proof (rule parse_file_shape [OF assms])
  let ?p = "5 + (of_nat i / of_nat n) * 10 :: rat"
  have p100: "?p \<le> 100" using parse_percent_le [of i n] assms by linarith
  show "hoare (\<lambda>s. open_upto ?p s \<and> counters_ok s)
       (case content file of
             ReadThrows e \<Rightarrow> throw e
           | ParseResult flds data \<Rightarrow>
               (let hs = (case flds of None \<Rightarrow> [] | Some h \<Rightarrow> h) in
                if length hs = 0 then
                  seq (send_error (''File \"'' @ name file @ ''\" has no headers'')
                         (Some [''The CSV file must have a header row with column names.'']))
                      return_stmt
                else
                  let missingColumns = filter (\<lambda>col. \<not> List.member hs col) REQUIRED_COLUMNS in
                  if length missingColumns > 0 then
                    seq (send_error
                           (''File \"'' @ name file @ ''\" is missing required columns'')
                           (Some [''Required columns: '' @ join '', '' REQUIRED_COLUMNS,
                                  ''Missing columns: '' @ join '', '' missingColumns,
                                  ''Found columns: '' @ join '', '' hs]))
                        return_stmt
                  else
                    push_parsed \<lparr>fileName = name file, headers = hs, rows = data,
                                 rowCount = length data\<rparr>))
       (post3 (\<lambda>s. open_upto ?p s \<and> counters_ok s) finished unsettled)"
  proof (cases "content file")
    case (ReadThrows e)
    then show ?thesis by (simp only: file_read.case) (rule throw_open [OF p100])
  next
    case (ParseResult flds data)
    then show ?thesis
      by (simp only: file_read.case Let_def)
         (intro hoare_if send_error_return_open push_parsed_open, simp)
  qed
qed

lemma hoare_gen_asm:
  assumes "b \<Longrightarrow> hoare P f Q"
  shows "hoare (\<lambda>s. b \<and> P s) f Q"
  using assms by (auto simp: hoare_def)

lemma parse_loop_shape:
  fixes parse :: "nat \<Rightarrow> nat \<Rightarrow> upload_file \<Rightarrow> unit stmt"
  assumes one: "\<And>i x. i < length files \<Longrightarrow>
     hoare (\<lambda>s. open_upto (5 + (of_nat i / of_nat (length files)) * 10) s \<and> counters_ok s)
       (parse (length files) i x)
       (post3 (\<lambda>s. open_upto (5 + (of_nat (Suc i) / of_nat (length files)) * 10) s \<and> counters_ok s)
          finished unsettled)"
  shows "hoare (\<lambda>s. open_upto 5 s \<and> counters_ok s)
     (for_index (parse (length files)) 0 files)
     (post3 (\<lambda>s. open_upto 15 s \<and> counters_ok s) finished unsettled)"
proof -
  define I where "I = (\<lambda>i (rest :: upload_file list) s. i + length rest = length files
      \<and> (open_upto (5 + (of_nat i / of_nat (length files)) * 10) s \<and> counters_ok s))"
  have step: "hoare (I i (x # rest)) (parse (length files) i x)
                (post3 (I (Suc i) rest) finished unsettled)" for i x rest
    unfolding I_def
  proof (rule hoare_gen_asm)
    assume a: "i + length (x # rest) = length files"
    then have "i < length files" by simp
    then show "hoare (\<lambda>s. open_upto (5 + (of_nat i / of_nat (length files)) * 10) s \<and> counters_ok s)
       (parse (length files) i x)
       (post3 (\<lambda>s. Suc i + length rest = length files
              \<and> (open_upto (5 + (of_nat (Suc i) / of_nat (length files)) * 10) s \<and> counters_ok s))
          finished unsettled)"
      using a by (intro hoare_post3_conseq [OF one]) auto
  qed
  have "hoare (I 0 files) (for_index (parse (length files)) 0 files)
          (post3 (I (0 + length files) []) finished unsettled)"
    by (rule hoare_for_index) (rule step)
  then show ?thesis
  proof (rule hoare_post3_conseq)
    fix s assume "open_upto 5 s \<and> counters_ok s"
    then show "I 0 files s" by (simp add: I_def)
  next
    fix s assume "I (0 + length files) [] s"
    then have "I (length files) [] s" by (simp only: add_0)
    then have "open_upto (5 + (of_nat (length files) / of_nat (length files)) * 10) s"
      and c: "counters_ok s"
      unfolding I_def by blast+
    then have "open_upto 15 s"
      using parse_percent_le [of "length files" "length files"] by (blast intro: open_upto_mono)
    then show "open_upto 15 s \<and> counters_ok s" using c by simp
  qed auto
qed

lemma parse_nodes_loop:
  "hoare (\<lambda>s. open_upto 5 s \<and> counters_ok s)
     (for_index (parse_node_file (length files)) 0 files)
     (post3 (\<lambda>s. open_upto 15 s \<and> counters_ok s) finished unsettled)"
  by (rule parse_loop_shape) (rule parse_node_file_triple)

lemma parse_rels_loop:
  "hoare (\<lambda>s. open_upto 5 s \<and> counters_ok s)
     (for_index (parse_rel_file (length files)) 0 files)
     (post3 (\<lambda>s. open_upto 15 s \<and> counters_ok s) finished unsettled)"
  by (rule parse_loop_shape) (rule parse_rel_file_triple)

lemma driver_freeD1: "driver_free K \<Longrightarrow> K (s\<lparr>driver := d, calls := cs\<rparr>) = K s"
proof -
  assume a: "driver_free K"
  have "s\<lparr>driver := d, calls := cs\<rparr> = s\<lparr>driver := d, calls := cs, store := store s\<rparr>" by simp
  then show ?thesis using a unfolding driver_free_def by metis
qed

lemma driver_freeD2: "driver_free K \<Longrightarrow> K (s\<lparr>calls := cs\<rparr>) = K s"
proof -
  assume a: "driver_free K"
  have "s\<lparr>calls := cs\<rparr> = s\<lparr>driver := driver s, calls := cs, store := store s\<rparr>" by simp
  then show ?thesis using a unfolding driver_free_def by metis
qed

lemma driver_free_open: "driver_free (\<lambda>s. open_upto B s \<and> counters_ok s)"
  by (simp add: driver_free_def open_upto_def counters_ok_def)

lemma driver_free_finished: "driver_free finished"
  by (simp add: driver_free_def finished_def)

lemma driver_free_unsettled: "driver_free unsettled"
  by (simp add: driver_free_def unsettled_def finished_def open_upto_def)

lemma neo4j_driver_keeps:
  "driver_free K \<Longrightarrow> hoare K (neo4j_driver env) (post3 K QR K)"
  by (auto simp: hoare_def neo4j_driver_def driver_freeD1 split: option.splits)

lemma driver_session_keeps:
  "driver_free K \<Longrightarrow> hoare K (driver_session env) (post3 K QR K)"
  by (auto simp: hoare_def driver_session_def driver_freeD2 split: option.splits)

lemma session_run_index_keeps:
  "driver_free K \<Longrightarrow> hoare K (session_run_index env) (post3 K QR K)"
  by (auto simp: hoare_def session_run_index_def driver_freeD2 Let_def split: option.splits)

lemma session_close_keeps:
  "driver_free K \<Longrightarrow> hoare K (session_close env) (post3 K QR K)"
  by (auto simp: hoare_def session_close_def driver_freeD2 Let_def split: option.splits)

lemma driver_close_keeps:
  "driver_free K \<Longrightarrow> hoare K (driver_close env) (post3 K QR K)"
  by (auto simp: hoare_def driver_close_def driver_freeD2 Let_def split: option.splits)

lemma close_if_driver_keeps:
  "driver_free K \<Longrightarrow>
   hoare K (reading (\<lambda>s. if driver s then driver_close env else skip)) (post3 K QR K)"
  by (rule hoare_reading)
     (auto intro!: hoare_if hoare_pre [OF driver_close_keeps] hoare_pre [OF hoare_skip])

lemma route_tail:
  assumes inner: "hoare (\<lambda>s. open_upto 20 s \<and> counters_ok s) inner (post3 finished finished unsettled)"
  shows "hoare (\<lambda>s. open_upto 20 s \<and> counters_ok s)
     (try_finally
        (try_catch
           (block [neo4j_driver env, driver_session env, try_finally inner (session_close env)])
           (\<lambda>e. send_error m (d e)))
        (reading (\<lambda>s. if driver s then driver_close env else skip)))
     (post3 finished finished finished)"
proof -
  let ?P = "\<lambda>s. open_upto 20 s \<and> counters_ok s"
  have P_unsettled: "unsettled s" if "open_upto 20 s" for s
    using that open_upto_unsettled [of 20 s] by simp
  have tf: "hoare ?P (try_finally inner (session_close env)) (post3 finished finished unsettled)"
    by (rule hoare_try_finally [OF inner])
       (rule hoare_post3_conseq [OF session_close_keeps [OF driver_free_finished]]
             hoare_post3_conseq [OF session_close_keeps [OF driver_free_unsettled]],
        simp_all add: finished_unsettled)+
  have d1: "hoare ?P (neo4j_driver env) (post3 ?P finished unsettled)"
    by (rule hoare_post3_conseq [OF neo4j_driver_keeps [OF driver_free_open]])
       (auto intro: P_unsettled)
  have d2: "hoare ?P (driver_session env) (post3 ?P finished unsettled)"
    by (rule hoare_post3_conseq [OF driver_session_keeps [OF driver_free_open]])
       (auto intro: P_unsettled)
  have blk: "hoare ?P
       (block [neo4j_driver env, driver_session env, try_finally inner (session_close env)])
       (post3 finished finished unsettled)"
    by (intro hoare_block_Cons [OF d1] hoare_block_Cons [OF d2] hoare_block_Cons [OF tf]
          hoare_block_Nil)
  have tc: "hoare ?P
       (try_catch
           (block [neo4j_driver env, driver_session env, try_finally inner (session_close env)])
           (\<lambda>e. send_error m (d e)))
       (post3 finished finished finished)"
    by (rule hoare_try_catch [OF blk]) (rule send_error_unsettled)
  show ?thesis
    by (rule hoare_try_finally [OF tc])
       (rule close_if_driver_keeps [OF driver_free_finished])+
qed

lemma sendProgress_100:
  "B \<le> 100 \<Longrightarrow> hoare (open_upto B) (sendProgress 100 m) (post3 at100 QR QT)"
  by (auto simp: hoare_def sendProgress_def enqueue_def open_upto_def at100_def percents_append
        sorted_append)

lemma enqueue_summary:
  "hoare at100 (enqueue (DataEvent ok n k m)) (post3 summary_sent QR QT)"
  by (auto simp: hoare_def enqueue_def open_upto_def at100_def summary_sent_def trace_ok_def
        percents_append)

lemma controller_close_summary:
  "hoare summary_sent controller_close (post3 finished QR QT)"
  by (auto simp: hoare_def controller_close_def summary_sent_def finished_def)

lemma sendProgress_open':
  "B \<le> p \<Longrightarrow> hoare (open_upto B) (sendProgress p m) (post3 (open_upto p) QR QT)"
  using sendProgress_open [of B p "\<lambda>s. True" m QR QT] by (simp add: stream_free_def)

lemma route_finished:
  assumes parse: "hoare (\<lambda>s. open_upto 5 s \<and> counters_ok s) (for_index parse 0 files)
                    (post3 (\<lambda>s. open_upto 15 s \<and> counters_ok s) finished unsettled)"
    and inner: "hoare (\<lambda>s. open_upto 20 s \<and> counters_ok s) inner (post3 finished finished unsettled)"
  shows "hoare (\<lambda>s. open_upto 0 s \<and> counters_ok s)
     (try_catch
       (if length files = 0 then
          seq (send_error m0 d0) return_stmt
        else if no_connection then
          seq (send_error m1 d1) return_stmt
        else
          block
            [sendProgress 5 m2,
             for_index parse 0 files,
             reading (\<lambda>s. sendProgress 15 (m3 s)),
             sendProgress 20 m4,
             try_finally
               (try_catch
                  (block
                     [neo4j_driver env, driver_session env,
                      try_finally inner (session_close env)])
                  (\<lambda>e. send_error m5 (d5 e)))
               (reading (\<lambda>s. if driver s then driver_close env else skip))])
       (\<lambda>e. send_error m6 (d6 e)))
     (post3 finished finished finished)"
proof -
  let ?P = "\<lambda>B s. open_upto B s \<and> counters_ok s"
  have s5: "hoare (?P 0) (sendProgress 5 m2) (post3 (?P 5) finished unsettled)"
    by (rule sendProgress_open [OF _ stream_free_counters_ok]) simp
  have s15: "hoare (?P 15) (reading (\<lambda>s. sendProgress 15 (m3 s))) (post3 (?P 15) finished unsettled)"
    by (rule hoare_reading)
       (rule hoare_pre [OF sendProgress_open [OF order_refl stream_free_counters_ok]], simp)
  have s20: "hoare (?P 15) (sendProgress 20 m4) (post3 (?P 20) finished unsettled)"
    by (rule sendProgress_open [OF _ stream_free_counters_ok]) simp
  have tail: "hoare (?P 20)
       (try_finally
               (try_catch
                  (block
                     [neo4j_driver env, driver_session env,
                      try_finally inner (session_close env)])
                  (\<lambda>e. send_error m5 (d5 e)))
               (reading (\<lambda>s. if driver s then driver_close env else skip)))
       (post3 finished finished unsettled)"
    by (rule hoare_post3_conseq [OF route_tail [OF inner]]) (simp_all add: finished_unsettled)
  have blk: "hoare (?P 0)
       (block
            [sendProgress 5 m2,
             for_index parse 0 files,
             reading (\<lambda>s. sendProgress 15 (m3 s)),
             sendProgress 20 m4,
             try_finally
               (try_catch
                  (block
                     [neo4j_driver env, driver_session env,
                      try_finally inner (session_close env)])
                  (\<lambda>e. send_error m5 (d5 e)))
               (reading (\<lambda>s. if driver s then driver_close env else skip))])
       (post3 finished finished unsettled)"
    by (intro hoare_block_Cons [OF s5] hoare_block_Cons [OF parse] hoare_block_Cons [OF s15]
          hoare_block_Cons [OF s20] hoare_block_Cons [OF tail] hoare_block_Nil)
  have body: "hoare (?P 0)
       (if length files = 0 then
          seq (send_error m0 d0) return_stmt
        else if no_connection then
          seq (send_error m1 d1) return_stmt
        else
          block
            [sendProgress 5 m2,
             for_index parse 0 files,
             reading (\<lambda>s. sendProgress 15 (m3 s)),
             sendProgress 20 m4,
             try_finally
               (try_catch
                  (block
                     [neo4j_driver env, driver_session env,
                      try_finally inner (session_close env)])
                  (\<lambda>e. send_error m5 (d5 e)))
               (reading (\<lambda>s. if driver s then driver_close env else skip))])
       (post3 finished finished unsettled)"
    by (intro hoare_if send_error_return_open blk)
  show ?thesis
    by (rule hoare_try_catch [OF body]) (rule send_error_unsettled)
qed

lemma node_batch_keeps_open:
  "hoare (open_upto B) (node_batch env label batch) (post3 (open_upto B) QR (open_upto B))"
  unfolding node_batch_def
proof (rule hoare_executeWrite)
  fix s c s'
  assume "open_upto B s" and "transaction env (node_batch_tx env label batch) s = (c, s')"
  then show "post3 (open_upto B) QR (open_upto B) c s'
             \<and> (\<forall>e. c = Throw e \<and> retriable e \<longrightarrow> open_upto B s')"
    by (auto simp: transaction_def node_batch_tx_def bind_def tx_run_def Let_def
          add_totalCreated_def open_upto_def split: option.splits prod.splits)
qed

lemma insert_node_file_keeps_open:
  "hoare (open_upto B) (insert_node_file env pf) (post3 (open_upto B) QR (open_upto B))"
proof -
  have grp: "hoare (open_upto B) (node_label_rows env entry) (post3 (open_upto B) QR (open_upto B))"
    for entry
  proof -
    have "node_label_rows env entry
          = for_of (node_batch env (fst entry)) (batches 1000 (snd entry))"
      using node_label_rows_batches [of env "fst entry" "snd entry"] by simp
    then show ?thesis
      using hoare_for_of [of "\<lambda>_. open_upto B" "node_batch env (fst entry)" QR "open_upto B",
          OF node_batch_keeps_open]
      by simp
  qed
  show ?thesis
    unfolding insert_node_file_def
    using hoare_for_of [of "\<lambda>_. open_upto B" "node_label_rows env" QR "open_upto B", OF grp]
    by simp
qed

lemma node_inner:
  "hoare (\<lambda>s. open_upto 20 s \<and> counters_ok s)
     (block
        [sendProgress 25 m1,
         reading (\<lambda>s. for_of (insert_node_file env) (parsedFiles s)),
         sendProgress 95 m2,
         sendProgress 100 m3,
         reading (\<lambda>s. enqueue (DataEvent True (n s) (k s) (m4 s))),
         controller_close])
     (post3 finished finished unsettled)"
proof -
  have u25: "unsettled s" if "open_upto 25 s" for s
    using that open_upto_unsettled [of 25 s] by simp
  have a: "hoare (\<lambda>s. open_upto 20 s \<and> counters_ok s) (sendProgress 25 m1)
             (post3 (open_upto 25) finished unsettled)"
    by (rule hoare_pre [OF sendProgress_open' [of 20]]) simp_all
  have b: "hoare (open_upto 25) (reading (\<lambda>s. for_of (insert_node_file env) (parsedFiles s)))
             (post3 (open_upto 25) finished unsettled)"
  proof (rule hoare_reading)
    fix s0 :: state
    have "hoare (open_upto 25) (for_of (insert_node_file env) (parsedFiles s0))
            (post3 (open_upto 25) finished (open_upto 25))"
      using hoare_for_of [of "\<lambda>_. open_upto 25" "insert_node_file env" finished "open_upto 25",
          OF insert_node_file_keeps_open]
      by simp
    then show "hoare (\<lambda>s. open_upto 25 s \<and> s = s0) (for_of (insert_node_file env) (parsedFiles s0))
            (post3 (open_upto 25) finished unsettled)"
      by (rule hoare_post3_conseq) (auto intro: u25)
  qed
  have c: "hoare (open_upto 25) (sendProgress 95 m2) (post3 (open_upto 95) finished unsettled)"
    by (rule sendProgress_open') simp
  have d: "hoare (open_upto 95) (sendProgress 100 m3) (post3 at100 finished unsettled)"
    by (rule sendProgress_100) simp
  have e: "hoare at100 (reading (\<lambda>s. enqueue (DataEvent True (n s) (k s) (m4 s))))
             (post3 summary_sent finished unsettled)"
    by (rule hoare_reading) (rule hoare_pre [OF enqueue_summary], simp)
  have f: "hoare summary_sent controller_close (post3 finished finished unsettled)"
    by (rule controller_close_summary)
  show ?thesis
    by (intro hoare_block_Cons [OF a] hoare_block_Cons [OF b] hoare_block_Cons [OF c]
          hoare_block_Cons [OF d] hoare_block_Cons [OF e] hoare_block_Cons [OF f] hoare_block_Nil)
qed

lemma init_state_open: "open_upto 0 (init_state g) \<and> counters_ok (init_state g)"
  by (simp add: init_state_def open_upto_def counters_ok_def)

lemma post3_same: "post3 Q Q Q c s = Q s"
  by (cases c) simp_all

lemma upload_nodes_finished: "finished (snd (upload_nodes env files conn (init_state g)))"
proof -
  have "hoare (\<lambda>s. open_upto 0 s \<and> counters_ok s) (upload_nodes env files conn)
          (post3 finished finished finished)"
    unfolding upload_nodes_def
    by (rule route_finished [OF parse_nodes_loop node_inner])
  from hoareD [OF this, of "init_state g"] init_state_open [of g]
  show ?thesis by (simp add: post3_same)
qed

subsection \<open>The stream of a relationship run\<close>

lemma rel_tx_Nil:
  "transaction env (rel_batch_tx env type []) s
   = (Throw (JsError ''Cannot convert undefined or null to object''), s)"
  by (simp add: transaction_def rel_batch_tx_def throw_def)

lemma rel_tx_fault:
  assumes "write_fault env (length (filter is_tx_run (calls s))) = Some e"
  shows "transaction env (rel_batch_tx env type (x # xs)) s
         = (Throw e, s\<lparr>calls := calls s @ [TxRun (CreateRels type (rel_keys x)) (x # xs)]\<rparr>)"
  using assms
  by (simp add: transaction_def rel_batch_tx_def bind_def tx_run_def Let_def rel_keys_def)

lemma rel_tx_commit_fault:
  assumes "write_fault env (length (filter is_tx_run (calls s))) = None"
    and "commit_fault env (length (filter is_tx_run (calls s))) = Some e" and "\<not> closed s"
  shows "transaction env (rel_batch_tx env type (x # xs)) s
         = (Throw e,
            s\<lparr>calls := calls s @ [TxRun (CreateRels type (rel_keys x)) (x # xs)],
              store := (if commit_applied env (length (filter is_tx_run (calls s)))
                        then fst (cypher_create_rels type (rel_keys x) (x # xs) (store s))
                        else store s),
              totalCreated := totalCreated s
                 + snd (cypher_create_rels type (rel_keys x) (x # xs) (store s)),
              processedRows := processedRows s + length (x # xs),
              events := events s @
                [Progress (rel_percent (processedRows s + length (x # xs)) (totalRows s))
                   (''Created '' @ string_of_nat (processedRows s + length (x # xs)) @ ''/''
                      @ string_of_nat (totalRows s) @ '' relationships...'')]\<rparr>)"
  using assms
  by (auto simp: transaction_def rel_batch_tx_def bind_def tx_run_def Let_def rel_keys_def
        seq_def add_totalCreated_def add_processedRows_def reading_def sendProgress_def
        enqueue_def skip_def rel_percent_def split: prod.splits)

lemma rel_tx_ok:
  assumes "write_fault env (length (filter is_tx_run (calls s))) = None"
    and "commit_fault env (length (filter is_tx_run (calls s))) = None" and "\<not> closed s"
  shows "transaction env (rel_batch_tx env type (x # xs)) s
         = (Normal (),
            s\<lparr>calls := calls s @ [TxRun (CreateRels type (rel_keys x)) (x # xs)],
              store := fst (cypher_create_rels type (rel_keys x) (x # xs) (store s)),
              totalCreated := totalCreated s
                 + snd (cypher_create_rels type (rel_keys x) (x # xs) (store s)),
              processedRows := processedRows s + length (x # xs),
              events := events s @
                [Progress (rel_percent (processedRows s + length (x # xs)) (totalRows s))
                   (''Created '' @ string_of_nat (processedRows s + length (x # xs)) @ ''/''
                      @ string_of_nat (totalRows s) @ '' relationships...'')]\<rparr>)"
  using assms
  by (auto simp: transaction_def rel_batch_tx_def bind_def tx_run_def Let_def rel_keys_def
        seq_def add_totalCreated_def add_processedRows_def reading_def sendProgress_def
        enqueue_def skip_def rel_percent_def split: prod.splits)

text \<open>A batch whose statement and commit the store accepts: one attempt is made.\<close>

lemma rel_batch_ok:
  assumes "write_fault env (length (filter is_tx_run (calls s))) = None"
    and "commit_fault env (length (filter is_tx_run (calls s))) = None" and "\<not> closed s"
  shows "rel_batch env type (x # xs) s
         = (Normal (),
            s\<lparr>calls := calls s @ [TxRun (CreateRels type (rel_keys x)) (x # xs)],
              store := fst (cypher_create_rels type (rel_keys x) (x # xs) (store s)),
              totalCreated := totalCreated s
                 + snd (cypher_create_rels type (rel_keys x) (x # xs) (store s)),
              processedRows := processedRows s + length (x # xs),
              events := events s @
                [Progress (rel_percent (processedRows s + length (x # xs)) (totalRows s))
                   (''Created '' @ string_of_nat (processedRows s + length (x # xs)) @ ''/''
                      @ string_of_nat (totalRows s) @ '' relationships...'')]\<rparr>)"
  unfolding rel_batch_def by (subst executeWrite_once) (simp_all add: rel_tx_ok [OF assms])

lemma math_round_mono: "x \<le> y \<Longrightarrow> math_round x \<le> math_round y"
  by (simp add: math_round_def floor_mono)

lemma math_round_of_int: "math_round (of_int z) = of_int z"
proof -
  have "\<lfloor>(of_int z :: rat) + 1 / 2\<rfloor> = z" by (rule floor_unique) simp_all
  then show ?thesis by (simp add: math_round_def)
qed

lemma rel_percent_mono: "k \<le> k' \<Longrightarrow> rel_percent k n \<le> rel_percent k' n"
  unfolding rel_percent_def
  by (intro math_round_mono add_left_mono mult_right_mono divide_right_mono) simp_all

lemma rel_percent_le: "k \<le> n \<Longrightarrow> rel_percent k n \<le> 95"
proof -
  assume "k \<le> n"
  then have "(of_nat k / of_nat n :: rat) \<le> 1"
    by (cases "n = 0") (simp_all add: divide_le_eq_1)
  then have "(of_nat k / of_nat n :: rat) * 65 \<le> 1 * 65"
    by (rule mult_right_mono) simp
  then have "30 + (of_nat k / of_nat n :: rat) * 65 \<le> 95" by linarith
  then have "rel_percent k n \<le> math_round 95"
    unfolding rel_percent_def by (rule math_round_mono)
  also have "math_round 95 = 95" using math_round_of_int [of 95] by simp
  finally show ?thesis .
qed

lemma rel_percent_0: "rel_percent 0 n = 30"
  using math_round_of_int [of 30] by (simp add: rel_percent_def)

lemma rel_inv_unsettled: "rel_inv r s \<Longrightarrow> unsettled s"
proof -
  assume a: "rel_inv r s"
  then have "rel_percent (processedRows s) (totalRows s) \<le> 95"
    by (intro rel_percent_le) (simp add: rel_inv_def)
  then show ?thesis using a by (auto simp: rel_inv_def intro: open_upto_unsettled)
qed

lemma rel_inv_weaken: "rel_inv r s \<Longrightarrow> r' \<le> r \<Longrightarrow> rel_inv r' s"
  by (simp add: rel_inv_def)

lemma rel_inv_95: "rel_inv r s \<Longrightarrow> open_upto 95 s"
proof -
  assume a: "rel_inv r s"
  then have "rel_percent (processedRows s) (totalRows s) \<le> 95"
    by (intro rel_percent_le) (simp add: rel_inv_def)
  then show ?thesis using a by (auto simp: rel_inv_def intro: open_upto_mono)
qed

lemma rel_inv_calls: "rel_inv r (s\<lparr>calls := cs\<rparr>) = rel_inv r s"
  by (simp add: rel_inv_def open_upto_def)

text \<open>
  One batch of a run in which no commit fails with a retriable error. A statement that
  fails leaves the counters and the stream alone, so the attempt after it starts where it
  started; a commit that fails has already counted the rows and sent their percent.
\<close>

lemma rel_batch_triple:
  assumes firm: "firm_commits env"
  shows "hoare (rel_inv (length b + r)) (rel_batch env type b) (post3 (rel_inv r) QR unsettled)"
  unfolding rel_batch_def
proof (rule hoare_executeWrite)
  fix s c s'
  assume inv: "rel_inv (length b + r) s"
    and t: "transaction env (rel_batch_tx env type b) s = (c, s')"
  from inv have op: "open_upto (rel_percent (processedRows s) (totalRows s)) s"
    and le: "processedRows s + (length b + r) \<le> totalRows s"
    by (simp_all add: rel_inv_def)
  have nc: "\<not> closed s" using op by (simp add: open_upto_def)
  let ?k = "length (filter is_tx_run (calls s))"
  show "post3 (rel_inv r) QR unsettled c s'
        \<and> (\<forall>e. c = Throw e \<and> retriable e \<longrightarrow> rel_inv (length b + r) s')"
  proof (cases b)
    case Nil
    then show ?thesis using inv t by (auto simp: rel_tx_Nil rel_inv_unsettled)
  next
    case (Cons x xs)
    show ?thesis
    proof (cases "write_fault env ?k")
      case (Some e)
      have c: "c = Throw e"
        and s': "s' = s\<lparr>calls := calls s @ [TxRun (CreateRels type (rel_keys x)) (x # xs)]\<rparr>"
        using t Cons by (auto simp: rel_tx_fault [OF Some])
      have "rel_inv (length b + r) s'" unfolding s' rel_inv_calls by (rule inv)
      moreover have "unsettled s'"
        unfolding s' using rel_inv_unsettled [of "length b + r"] inv by (simp add: rel_inv_calls)
      ultimately show ?thesis using c by simp
    next
      case None
      let ?n = "processedRows s + length (x # xs)"
      have mono: "rel_percent (processedRows s) (totalRows s) \<le> rel_percent ?n (totalRows s)"
        by (rule rel_percent_mono) simp
      have bound: "\<forall>p \<in> set (percents (events s)). p \<le> rel_percent ?n (totalRows s)"
        using op mono unfolding open_upto_def by (meson order_trans)
      show ?thesis
      proof (cases "commit_fault env ?k")
        case (Some e)
        have c: "c = Throw e" using t Cons by (auto simp: rel_tx_commit_fault [OF None Some nc])
        have "rel_inv r s'"
          using t op le Cons bound
          by (auto simp: rel_tx_commit_fault [OF None Some nc] rel_inv_def open_upto_def
                percents_append sorted_append)
        moreover have "\<not> retriable e" using firm Some by (simp add: firm_commits_def)
        ultimately show ?thesis using c rel_inv_unsettled by auto
      next
        case none: None
        have c: "c = Normal ()" using t Cons by (auto simp: rel_tx_ok [OF None none nc])
        have "rel_inv r s'"
          using t op le Cons bound
          by (auto simp: rel_tx_ok [OF None none nc] rel_inv_def open_upto_def
                percents_append sorted_append)
        then show ?thesis using c by simp
      qed
    qed
  qed
qed

lemma rel_type_rows_triple:
  assumes firm: "firm_commits env"
  shows "hoare (rel_inv (length (snd entry) + r)) (rel_type_rows env entry)
           (post3 (rel_inv r) QR unsettled)"
proof -
  define I where "I = (\<lambda>(rest :: row list list) s. rel_inv (length (concat rest) + r) s)"
  have step: "hoare (I (b # rest)) (rel_batch env (fst entry) b) (post3 (I rest) QR unsettled)"
    for b rest
    unfolding I_def using rel_batch_triple [OF firm, of b "length (concat rest) + r"]
    by (simp add: add.assoc)
  have eq: "rel_type_rows env entry = for_of (rel_batch env (fst entry)) (batches 5000 (snd entry))"
    using rel_type_rows_batches [of env "fst entry" "snd entry"] by simp
  have "hoare (I (batches 5000 (snd entry))) (rel_type_rows env entry) (post3 (I []) QR unsettled)"
    unfolding eq by (rule hoare_for_of) (rule step)
  then show ?thesis by (simp add: I_def concat_batches)
qed

lemma create_rel_file_triple:
  assumes firm: "firm_commits env"
  shows "hoare (rel_inv (length (rows pf) + r)) (create_rel_file env pf)
           (post3 (rel_inv r) QR unsettled)"
proof -
  define I where "I = (\<lambda>(rest :: groups) s. rel_inv (group_size rest + r) s)"
  have step: "hoare (I (entry # rest)) (rel_type_rows env entry) (post3 (I rest) QR unsettled)"
    for entry rest
    unfolding I_def using rel_type_rows_triple [OF firm, of entry "group_size rest + r"]
    by (simp add: add.assoc group_size_def)
  have "hoare (I (group_by_type (rows pf))) (create_rel_file env pf) (post3 (I []) QR unsettled)"
    unfolding create_rel_file_def by (rule hoare_for_of) (rule step)
  then show ?thesis
  proof (rule hoare_post3_conseq)
    fix s assume "rel_inv (length (rows pf) + r) s"
    then show "I (group_by_type (rows pf)) s"
      unfolding I_def using group_size_by_type_le [of "rows pf"] by (auto intro: rel_inv_weaken)
  qed (simp_all add: I_def group_size_def)
qed

lemma create_rel_files_triple:
  assumes firm: "firm_commits env"
  shows "hoare (rel_inv (sum_list (map (\<lambda>p. length (rows p)) pfs)))
           (for_of (create_rel_file env) pfs) (post3 (rel_inv 0) QR unsettled)"
proof -
  define I where "I = (\<lambda>(rest :: parsed_csv list) s.
                          rel_inv (sum_list (map (\<lambda>p. length (rows p)) rest)) s)"
  have step: "hoare (I (pf # rest)) (create_rel_file env pf) (post3 (I rest) QR unsettled)"
    for pf rest
    unfolding I_def
    using create_rel_file_triple [OF firm, of pf "sum_list (map (\<lambda>p. length (rows p)) rest)"]
    by simp
  have "hoare (I pfs) (for_of (create_rel_file env) pfs) (post3 (I []) QR unsettled)"
    by (rule hoare_for_of) (rule step)
  then show ?thesis by (simp add: I_def)
qed

lemma rel_inner:
  assumes firm: "firm_commits env"
  shows "hoare (\<lambda>s. open_upto 20 s \<and> counters_ok s)
     (block
        [sendProgress 25 m1,
         try_catch (session_run_index env) (\<lambda>indexError. skip),
         sendProgress 30 m2,
         reading (\<lambda>s. for_of (create_rel_file env) (parsedFiles s)),
         sendProgress 95 m3,
         sendProgress 100 m4,
         reading (\<lambda>s. enqueue (DataEvent True (n s) (k s) (m5 s))),
         controller_close])
     (post3 finished finished unsettled)"
proof -
  let ?P = "\<lambda>B s. open_upto B s \<and> counters_ok s"
  have u: "unsettled s" if "open_upto 25 s" for s
    using that open_upto_unsettled [of 25 s] by simp
  have a: "hoare (?P 20) (sendProgress 25 m1) (post3 (?P 25) finished unsettled)"
    by (rule sendProgress_open [OF _ stream_free_counters_ok]) simp
  have b: "hoare (?P 25) (try_catch (session_run_index env) (\<lambda>indexError. skip))
             (post3 (?P 25) finished unsettled)"
    by (rule hoare_post3_conseq
          [OF hoare_try_catch [OF session_run_index_keeps [OF driver_free_open] hoare_skip]])
       (auto intro: u)
  have c: "hoare (?P 25) (sendProgress 30 m2) (post3 (?P 30) finished unsettled)"
    by (rule sendProgress_open [OF _ stream_free_counters_ok]) simp
  have d: "hoare (?P 30) (reading (\<lambda>s. for_of (create_rel_file env) (parsedFiles s)))
             (post3 (open_upto 95) finished unsettled)"
  proof (rule hoare_reading)
    fix s0 :: state
    show "hoare (\<lambda>s. ?P 30 s \<and> s = s0) (for_of (create_rel_file env) (parsedFiles s0))
            (post3 (open_upto 95) finished unsettled)"
    proof (rule hoare_post3_conseq [OF create_rel_files_triple [OF firm]])
      fix s assume "?P 30 s \<and> s = s0"
      then show "rel_inv (sum_list (map (\<lambda>p. length (rows p)) (parsedFiles s0))) s"
        by (auto simp: rel_inv_def counters_ok_def rel_percent_0)
    qed (auto intro: rel_inv_95)
  qed
  have e: "hoare (open_upto 95) (sendProgress 95 m3) (post3 (open_upto 95) finished unsettled)"
    by (rule sendProgress_open') simp
  have f: "hoare (open_upto 95) (sendProgress 100 m4) (post3 at100 finished unsettled)"
    by (rule sendProgress_100) simp
  have g: "hoare at100 (reading (\<lambda>s. enqueue (DataEvent True (n s) (k s) (m5 s))))
             (post3 summary_sent finished unsettled)"
    by (rule hoare_reading) (rule hoare_pre [OF enqueue_summary], simp)
  have h: "hoare summary_sent controller_close (post3 finished finished unsettled)"
    by (rule controller_close_summary)
  show ?thesis
    by (intro hoare_block_Cons [OF a] hoare_block_Cons [OF b] hoare_block_Cons [OF c]
          hoare_block_Cons [OF d] hoare_block_Cons [OF e] hoare_block_Cons [OF f]
          hoare_block_Cons [OF g] hoare_block_Cons [OF h] hoare_block_Nil)
qed

lemma upload_relationships_finished:
  assumes firm: "firm_commits env"
  shows "finished (snd (upload_relationships env files conn (init_state g)))"
proof -
  have "hoare (\<lambda>s. open_upto 0 s \<and> counters_ok s) (upload_relationships env files conn)
          (post3 finished finished finished)"
    unfolding upload_relationships_def
    by (rule route_finished [OF parse_rels_loop rel_inner [OF firm]])
  from hoareD [OF this, of "init_state g"] init_state_open [of g]
  show ?thesis by (simp add: post3_same)
qed

text \<open>
  What holds of the streams. Every node run, whatever the store does, ends with
  non-decreasing percents and one terminal event, the last event, and 100 as the last
  percent before a summary. Every relationship run does so as long as no commit fails with
  a retriable error.
\<close>

lemma upload_nodes_trace_ok:
  "trace_ok (events (snd (upload_nodes env files conn (init_state g))))"
  using upload_nodes_finished [of env files conn g] by (simp add: finished_def)

lemma upload_relationships_trace_ok:
  "firm_commits env
   \<Longrightarrow> trace_ok (events (snd (upload_relationships env files conn (init_state g))))"
  using upload_relationships_finished [of env files conn g] by (simp add: finished_def)

text \<open>
  C1. The claim fails on the relationship route. The route counts the rows of a batch and
  sends their percent inside the transaction function (\<^verbatim>\<open>processedRows += batch.length\<close>,
  \<^verbatim>\<open>sendProgress(Math.round(progress), ...)\<close>, under the comment
  \<^verbatim>\<open>Calculate progress (30% to 95%)\<close>), and \<^verbatim>\<open>executeWrite\<close> runs that function again when the
  commit fails with a retriable error. On the one-row file \<open>knows_csv\<close>, with a store whose
  first commit fails so, the row is counted twice: the percents of the run are 5, 5, 15,
  20, 25, 30, 95, 160, 95 and 100, which is not non-decreasing (and 160 is no percent);
  the summary reports two relationships where the store holds one.
\<close>

theorem rerun_breaks_progress_order:
  "percents (events (snd (upload_relationships flaky_commit [knows_csv] sample_connection
       (init_state people_graph))))
     = [5, 5, 15, 20, 25, 30, 95, 160, 95, 100]
   \<and> \<not> sorted (percents (events (snd (upload_relationships flaky_commit [knows_csv]
         sample_connection (init_state people_graph)))))
   \<and> last (events (snd (upload_relationships flaky_commit [knows_csv] sample_connection
       (init_state people_graph))))
     = DataEvent True 1 2 ''Successfully created 2 relationships from 1 file(s)''
   \<and> rels (store (snd (upload_relationships flaky_commit [knows_csv] sample_connection
       (init_state people_graph))))
     = [\<lparr>rel_from = 0, rel_to = 1, rel_type = ''KNOWS'', rel_props = []\<rparr>]"
proof -
  have a: "percents (events (snd (upload_relationships flaky_commit [knows_csv]
       sample_connection (init_state people_graph))))
     = [5, 5, 15, 20, 25, 30, 95, 160, 95, 100]"
    by code_simp
  have b: "\<not> sorted [5, 5, 15, 20, 25, 30, 95, 160, 95, 100 :: rat]" by simp
  have c: "last (events (snd (upload_relationships flaky_commit [knows_csv] sample_connection
       (init_state people_graph))))
     = DataEvent True 1 2 ''Successfully created 2 relationships from 1 file(s)''"
    by code_simp
  have d: "rels (store (snd (upload_relationships flaky_commit [knows_csv] sample_connection
       (init_state people_graph))))
     = [\<lparr>rel_from = 0, rel_to = 1, rel_type = ''KNOWS'', rel_props = []\<rparr>]"
    by code_simp
  show ?thesis using a b c d by simp
qed

subsection \<open>Release of the driver and the session\<close>

lemma calmI: "(\<And>s. resources (snd (f s)) = resources s \<and> driver (snd (f s)) = driver s) \<Longrightarrow> calm f"
  by (simp add: calm_def)

lemma calmD: "calm f \<Longrightarrow> f s = (c, s') \<Longrightarrow> resources s' = resources s \<and> driver s' = driver s"
  by (metis calm_def snd_conv)

lemma calm_hoare: "calm f \<Longrightarrow> res_only P \<Longrightarrow> hoare P f (post3 P P P)"
  unfolding calm_def res_only_def hoare_def by (metis post3_same)

lemma calm_bind: "calm f \<Longrightarrow> (\<And>v. calm (g v)) \<Longrightarrow> calm (bind f g)"
proof (rule calmI)
  fix s assume f: "calm f" and g: "\<And>v. calm (g v)"
  obtain c s' where fs: "f s = (c, s')" by (cases "f s")
  show "resources (snd (bind f g s)) = resources s \<and> driver (snd (bind f g s)) = driver s"
  proof (cases c)
    case (Normal v)
    obtain c' s'' where gs: "g v s' = (c', s'')" by (cases "g v s'")
    show ?thesis using Normal fs gs calmD [OF f fs] calmD [OF g gs] by (simp add: bind_def)
  qed (use fs calmD [OF f fs] in \<open>simp_all add: bind_def\<close>)
qed

lemma calm_seq: "calm f \<Longrightarrow> calm g \<Longrightarrow> calm (seq f g)"
  by (simp add: seq_def calm_bind)

lemma calm_skip: "calm skip"
  by (simp add: calm_def skip_def)

lemma calm_return: "calm return_stmt"
  by (simp add: calm_def return_stmt_def)

lemma calm_throw: "calm (throw e)"
  by (simp add: calm_def throw_def)

lemma calm_block: "(\<And>f. f \<in> set fs \<Longrightarrow> calm f) \<Longrightarrow> calm (block fs)"
  by (induction fs) (simp_all add: calm_skip calm_seq)

lemma calm_try_catch: "calm f \<Longrightarrow> (\<And>e. calm (h e)) \<Longrightarrow> calm (try_catch f h)"
proof (rule calmI)
  fix s assume f: "calm f" and h: "\<And>e. calm (h e)"
  obtain c s' where fs: "f s = (c, s')" by (cases "f s")
  show "resources (snd (try_catch f h s)) = resources s \<and> driver (snd (try_catch f h s)) = driver s"
  proof (cases c)
    case (Throw e)
    obtain c' s'' where hs: "h e s' = (c', s'')" by (cases "h e s'")
    show ?thesis using Throw fs hs calmD [OF f fs] calmD [OF h hs] by (simp add: try_catch_def)
  qed (use fs calmD [OF f fs] in \<open>simp_all add: try_catch_def\<close>)
qed

lemma calm_for_of: "(\<And>x. calm (body x)) \<Longrightarrow> calm (for_of body xs)"
  by (induction xs) (simp_all add: calm_skip calm_seq)

lemma calm_for_index: "(\<And>i x. calm (body i x)) \<Longrightarrow> calm (for_index body i xs)"
  by (induction xs arbitrary: i) (simp_all add: calm_skip calm_seq)

lemma calm_reading: "(\<And>s. calm (f s)) \<Longrightarrow> calm (reading f)"
  by (simp add: calm_def reading_def)

lemma calm_enqueue: "calm (enqueue ev)"
  by (simp add: calm_def enqueue_def resources_def)

lemma calm_controller_close: "calm controller_close"
  by (simp add: calm_def controller_close_def resources_def)

lemma calm_sendProgress: "calm (sendProgress p m)"
  by (simp add: sendProgress_def calm_enqueue)

lemma calm_send_error: "calm (send_error m d)"
  by (simp add: send_error_def calm_seq calm_enqueue calm_controller_close)

lemma calm_push_parsed: "calm (push_parsed p)"
  by (simp add: calm_def push_parsed_def resources_def)

lemma calm_parse_node_file: "calm (parse_node_file n i f)"
  unfolding parse_node_file_def
  by (intro calm_try_catch calm_seq calm_sendProgress calm_send_error calm_return)
     (simp add: Let_def calm_throw calm_seq calm_send_error calm_return calm_push_parsed
        split: file_read.splits)

lemma calm_parse_rel_file: "calm (parse_rel_file n i f)"
  unfolding parse_rel_file_def
  by (intro calm_try_catch calm_seq calm_sendProgress calm_send_error calm_return)
     (simp add: Let_def calm_throw calm_seq calm_send_error calm_return calm_push_parsed
        split: file_read.splits)

lemma calm_tx_run: "calm (tx_run env q b)"
  by (simp add: calm_def tx_run_def Let_def resources_def split: option.splits prod.splits)

lemma calm_transaction: "calm f \<Longrightarrow> calm (transaction env f)"
proof (rule calmI)
  fix s assume f: "calm f"
  obtain c s' where fs: "f s = (c, s')" by (cases "f s")
  show "resources (snd (transaction env f s)) = resources s
        \<and> driver (snd (transaction env f s)) = driver s"
    using fs calmD [OF f fs]
    by (cases c) (simp_all add: transaction_def Let_def resources_def split: option.splits)
qed

lemma calm_retry: "calm f \<Longrightarrow> calm (retry n f)"
proof (induction n)
  case 0
  then show ?case by (simp add: calm_def)
next
  case (Suc n)
  show ?case
  proof (rule calmI)
    fix s
    obtain c s' where fs: "f s = (c, s')" by (cases "f s")
    note a = calmD [OF Suc.prems fs]
    show "resources (snd (retry (Suc n) f s)) = resources s
          \<and> driver (snd (retry (Suc n) f s)) = driver s"
    proof (cases c)
      case (Throw e)
      obtain d t where rs: "retry n f s' = (d, t)" by (cases "retry n f s'")
      show ?thesis using fs Throw a rs calmD [OF Suc.IH [OF Suc.prems] rs] by simp
    qed (use fs a in simp_all)
  qed
qed

lemma calm_executeWrite: "calm f \<Longrightarrow> calm (executeWrite env f)"
proof (rule calmI)
  fix s :: state
  assume f: "calm f"
  let ?n = "retry_limit env (length (filter is_tx_run (calls s)))"
  obtain c s' where rs: "retry ?n (transaction env f) s = (c, s')"
    by (cases "retry ?n (transaction env f) s")
  show "resources (snd (executeWrite env f s)) = resources s
        \<and> driver (snd (executeWrite env f s)) = driver s"
    using rs calmD [OF calm_retry [OF calm_transaction [OF f]] rs]
    by (simp add: executeWrite_def)
qed

lemma calm_add_totalCreated: "calm (add_totalCreated n)"
  by (simp add: calm_def add_totalCreated_def resources_def)

lemma calm_add_processedRows: "calm (add_processedRows n)"
  by (simp add: calm_def add_processedRows_def resources_def)

lemma calm_node_batch: "calm (node_batch env label b)"
  unfolding node_batch_def node_batch_tx_def
  by (intro calm_executeWrite calm_bind calm_tx_run calm_add_totalCreated)

lemma calm_rel_batch: "calm (rel_batch env type b)"
  unfolding rel_batch_def rel_batch_tx_def
  by (intro calm_executeWrite)
     (simp add: Let_def calm_throw calm_bind calm_tx_run calm_seq calm_add_totalCreated
        calm_add_processedRows calm_reading calm_sendProgress calm_skip split: list.splits)

lemma calm_insert_node_file: "calm (insert_node_file env pf)"
proof -
  have "calm (node_label_rows env entry)" for entry
    using node_label_rows_batches [of env "fst entry" "snd entry"]
    by (simp add: calm_for_of calm_node_batch)
  then show ?thesis by (simp add: insert_node_file_def calm_for_of)
qed

lemma calm_create_rel_file: "calm (create_rel_file env pf)"
proof -
  have "calm (rel_type_rows env entry)" for entry
    using rel_type_rows_batches [of env "fst entry" "snd entry"]
    by (simp add: calm_for_of calm_rel_batch)
  then show ?thesis by (simp add: create_rel_file_def calm_for_of)
qed

lemma calm_session_run_index: "calm (session_run_index env)"
  by (simp add: calm_def session_run_index_def Let_def resources_def split: option.splits)

lemma res_only_holding: "res_only (holding rs d)"
  by (auto simp: res_only_def holding_def)

lemma res_only_released: "res_only released"
  by (auto simp: res_only_def released_def)

lemma res_only_disj: "res_only P \<Longrightarrow> res_only Q \<Longrightarrow> res_only (\<lambda>s. P s \<or> Q s)"
  unfolding res_only_def by blast

lemma route_resources:
  assumes parse: "calm (for_index parse 0 files)" and inner: "calm inner"
  shows "hoare (holding [] False)
     (try_catch
       (if length files = 0 then
          seq (send_error m0 d0) return_stmt
        else if no_connection then
          seq (send_error m1 d1) return_stmt
        else
          block
            [sendProgress 5 m2,
             for_index parse 0 files,
             reading (\<lambda>s. sendProgress 15 (m3 s)),
             sendProgress 20 m4,
             try_finally
               (try_catch
                  (block
                     [neo4j_driver env, driver_session env,
                      try_finally inner (session_close env)])
                  (\<lambda>e. send_error m5 (d5 e)))
               (reading (\<lambda>s. if driver s then driver_close env else skip))])
       (\<lambda>e. send_error m6 (d6 e)))
     (post3 released released released)"
proof -
  let ?h0 = "holding [] False"
  let ?h1 = "holding [DriverOpened] True"
  let ?h2 = "holding [DriverOpened, SessionOpened] True"
  let ?h3 = "holding [DriverOpened, SessionOpened, SessionClose] True"
  let ?W = "\<lambda>s. ?h0 s \<or> ?h1 s \<or> ?h3 s"
  have roW: "res_only ?W" by (intro res_only_disj res_only_holding)
  have h0_rel: "released s" if "?h0 s" for s using that by (simp add: holding_def released_def)
  have a: "hoare ?h0 (neo4j_driver env) (post3 ?h1 ?W ?W)"
    by (auto simp: hoare_def neo4j_driver_def holding_def resources_def split: option.splits)
  have b: "hoare ?h1 (driver_session env) (post3 ?h2 ?W ?W)"
    by (auto simp: hoare_def driver_session_def holding_def resources_def split: option.splits)
  have c1: "hoare ?h2 inner (post3 ?h2 ?h2 ?h2)"
    by (rule calm_hoare [OF inner res_only_holding])
  have c2: "hoare ?h2 (session_close env) (post3 ?h3 ?h3 ?h3)"
    by (auto simp: hoare_def session_close_def holding_def resources_def Let_def
          split: option.splits)
  have c: "hoare ?h2 (try_finally inner (session_close env)) (post3 ?W ?W ?W)"
    by (rule hoare_post3_conseq [OF hoare_try_finally [OF c1 c2 c2 c2]]) simp_all
  have blk: "hoare ?h0
       (block [neo4j_driver env, driver_session env, try_finally inner (session_close env)])
       (post3 ?W ?W ?W)"
    by (intro hoare_block_Cons [OF a] hoare_block_Cons [OF b] hoare_block_Cons [OF c]
          hoare_block_Nil)
  have tc: "hoare ?h0
       (try_catch
          (block [neo4j_driver env, driver_session env, try_finally inner (session_close env)])
          (\<lambda>e. send_error m5 (d5 e)))
       (post3 ?W ?W ?W)"
    by (rule hoare_try_catch [OF blk]) (rule calm_hoare [OF calm_send_error roW])
  have fin: "hoare ?W (reading (\<lambda>s. if driver s then driver_close env else skip))
               (post3 released released released)"
    by (auto simp: hoare_def reading_def driver_close_def skip_def holding_def released_def
          resources_def Let_def split: option.splits)
  have tail: "hoare ?h0
       (try_finally
          (try_catch
             (block [neo4j_driver env, driver_session env, try_finally inner (session_close env)])
             (\<lambda>e. send_error m5 (d5 e)))
          (reading (\<lambda>s. if driver s then driver_close env else skip)))
       (post3 released released released)"
    by (rule hoare_try_finally [OF tc fin fin fin])
  have early: "hoare ?h0 f (post3 ?h0 released released)" if "calm f" for f :: "unit stmt"
    by (rule hoare_post3_conseq [OF calm_hoare [OF that res_only_holding]])
       (auto intro: h0_rel)
  have early_ret: "hoare ?h0 f (post3 released released released)" if "calm f" for f :: "unit stmt"
    by (rule hoare_post3_conseq [OF calm_hoare [OF that res_only_holding]])
       (auto intro: h0_rel)
  have s15: "calm (reading (\<lambda>s. sendProgress 15 (m3 s)))"
    by (simp add: calm_reading calm_sendProgress)
  have main: "hoare ?h0
       (block
            [sendProgress 5 m2,
             for_index parse 0 files,
             reading (\<lambda>s. sendProgress 15 (m3 s)),
             sendProgress 20 m4,
             try_finally
               (try_catch
                  (block
                     [neo4j_driver env, driver_session env,
                      try_finally inner (session_close env)])
                  (\<lambda>e. send_error m5 (d5 e)))
               (reading (\<lambda>s. if driver s then driver_close env else skip))])
       (post3 released released released)"
    by (intro hoare_block_Cons [OF early [OF calm_sendProgress]] hoare_block_Cons [OF early [OF parse]]
          hoare_block_Cons [OF early [OF s15]] hoare_block_Cons [OF tail] hoare_block_Nil)
  have body: "hoare ?h0
       (if length files = 0 then
          seq (send_error m0 d0) return_stmt
        else if no_connection then
          seq (send_error m1 d1) return_stmt
        else
          block
            [sendProgress 5 m2,
             for_index parse 0 files,
             reading (\<lambda>s. sendProgress 15 (m3 s)),
             sendProgress 20 m4,
             try_finally
               (try_catch
                  (block
                     [neo4j_driver env, driver_session env,
                      try_finally inner (session_close env)])
                  (\<lambda>e. send_error m5 (d5 e)))
               (reading (\<lambda>s. if driver s then driver_close env else skip))])
       (post3 released released released)"
    by (intro hoare_if main early_ret calm_seq calm_send_error calm_return)
  show ?thesis
    by (rule hoare_try_catch [OF body]) (rule calm_hoare [OF calm_send_error res_only_released])
qed

lemma calm_node_inner:
  "calm (block
        [sendProgress 25 m1,
         reading (\<lambda>s. for_of (insert_node_file env) (parsedFiles s)),
         sendProgress 95 m2,
         sendProgress 100 m3,
         reading (\<lambda>s. enqueue (DataEvent True (n s) (k s) (m4 s))),
         controller_close])"
  by (rule calm_block)
     (auto simp: calm_sendProgress calm_reading calm_for_of calm_insert_node_file calm_enqueue
        calm_controller_close)

lemma calm_rel_inner:
  "calm (block
        [sendProgress 25 m1,
         try_catch (session_run_index env) (\<lambda>indexError. skip),
         sendProgress 30 m2,
         reading (\<lambda>s. for_of (create_rel_file env) (parsedFiles s)),
         sendProgress 95 m3,
         sendProgress 100 m4,
         reading (\<lambda>s. enqueue (DataEvent True (n s) (k s) (m5 s))),
         controller_close])"
  by (rule calm_block)
     (auto simp: calm_sendProgress calm_reading calm_for_of calm_create_rel_file calm_enqueue
        calm_controller_close calm_try_catch calm_session_run_index calm_skip)

lemma init_state_holding: "holding [] False (init_state g)"
  by (simp add: holding_def resources_def init_state_def)

lemma upload_nodes_released: "released (snd (upload_nodes env files conn (init_state g)))"
proof -
  have "hoare (holding [] False) (upload_nodes env files conn) (post3 released released released)"
    unfolding upload_nodes_def
    by (rule route_resources [OF calm_for_index [OF calm_parse_node_file] calm_node_inner])
  from hoareD [OF this init_state_holding] show ?thesis by (simp add: post3_same)
qed

lemma upload_relationships_released:
  "released (snd (upload_relationships env files conn (init_state g)))"
proof -
  have "hoare (holding [] False) (upload_relationships env files conn)
          (post3 released released released)"
    unfolding upload_relationships_def
    by (rule route_resources [OF calm_for_index [OF calm_parse_rel_file] calm_rel_inner])
  from hoareD [OF this init_state_holding] show ?thesis by (simp add: post3_same)
qed

text \<open>
  C9. In every run of either route, whatever the store does, the driver calls that open and
  close resources are one of: none at all; driver opened, driver closed; driver opened,
  session opened, session closed, driver closed. So a driver that was opened is closed
  by the end of the run, and a session that was opened is closed before its driver,
  on the success path and on every error path alike.
\<close>

theorem resources_released:
  "filter is_resource (calls (snd (upload_nodes env files conn (init_state g))))
     \<in> {[], [DriverOpened, DriverClose],
         [DriverOpened, SessionOpened, SessionClose, DriverClose]}
   \<and> filter is_resource (calls (snd (upload_relationships env files conn (init_state g))))
     \<in> {[], [DriverOpened, DriverClose],
         [DriverOpened, SessionOpened, SessionClose, DriverClose]}"
  using upload_nodes_released [of env files conn g]
    upload_relationships_released [of env files conn g]
  by (simp add: released_def resources_def)

subsection \<open>Files without a LABEL column\<close>

lemma parse_node_file_fresh:
  "hoare (fresh g) (parse_node_file n i x)
     (post3 (\<lambda>s. fresh g s \<and> valid_node_file x)
        (\<lambda>s. failed g s \<and> \<not> valid_node_file x
              \<and> (lacks_label x \<and> file_headers x \<noteq> []
                   \<longrightarrow> filter is_terminal (events s) = [label_error x]))
        (\<lambda>s. False))"
  by (cases "content x")
     (auto simp: hoare_def parse_node_file_def try_catch_def seq_def bind_def sendProgress_def
        enqueue_def send_error_def controller_close_def return_stmt_def throw_def
        push_parsed_def fresh_def failed_def valid_node_file_def lacks_label_def
        file_headers_def parsed_ok_def label_error_def Let_def
        split: option.splits)

lemma hoare_False: "hoare (\<lambda>s. False) f Q"
  by (simp add: hoare_def)

lemma send_error_return_fresh:
  "hoare (fresh g) (seq (send_error m d) return_stmt) (post3 QN (failed g) QT)"
  by (auto simp: hoare_def send_error_def seq_def bind_def enqueue_def controller_close_def
        return_stmt_def fresh_def failed_def)

lemma route_rejects:
  assumes loop: "hoare (fresh g) (for_index parse 0 files) (post3 (\<lambda>s. False) Q (\<lambda>s. False))"
    and e0: "length files = 0 \<Longrightarrow> hoare (fresh g) (seq (send_error m0 d0) return_stmt) (post3 Q Q Q)"
    and e1: "no_connection \<Longrightarrow> hoare (fresh g) (seq (send_error m1 d1) return_stmt) (post3 Q Q Q)"
  shows "hoare (fresh g)
     (try_catch
       (if length files = 0 then
          seq (send_error m0 d0) return_stmt
        else if no_connection then
          seq (send_error m1 d1) return_stmt
        else
          block
            [sendProgress 5 m2,
             for_index parse 0 files,
             reading (\<lambda>s. sendProgress 15 (m3 s)),
             sendProgress 20 m4,
             tail])
       (\<lambda>e. send_error m6 (d6 e)))
     (post3 Q Q Q)"
proof -
  have a: "hoare (fresh g) (sendProgress 5 m2) (post3 (fresh g) Q (\<lambda>s. False))"
    by (auto simp: hoare_def sendProgress_def enqueue_def fresh_def)
  have rest: "hoare (\<lambda>s. False)
       (block [reading (\<lambda>s. sendProgress 15 (m3 s)), sendProgress 20 m4, tail])
       (post3 (\<lambda>s. False) Q (\<lambda>s. False))"
    by (rule hoare_False)
  have blk: "hoare (fresh g)
       (block
            [sendProgress 5 m2,
             for_index parse 0 files,
             reading (\<lambda>s. sendProgress 15 (m3 s)),
             sendProgress 20 m4,
             tail])
       (post3 (\<lambda>s. False) Q (\<lambda>s. False))"
    by (intro hoare_block_Cons [OF a] hoare_block_Cons [OF loop] rest)
  have blk': "hoare (fresh g)
       (block
            [sendProgress 5 m2,
             for_index parse 0 files,
             reading (\<lambda>s. sendProgress 15 (m3 s)),
             sendProgress 20 m4,
             tail])
       (post3 Q Q (\<lambda>s. False))"
    by (rule hoare_post3_conseq [OF blk]) simp_all
  have e0': "length files = 0 \<Longrightarrow>
       hoare (fresh g) (seq (send_error m0 d0) return_stmt) (post3 Q Q (\<lambda>s. False))"
    using e0 by (auto simp: hoare_def send_error_def seq_def bind_def enqueue_def
          controller_close_def return_stmt_def fresh_def)
  have e1': "no_connection \<Longrightarrow>
       hoare (fresh g) (seq (send_error m1 d1) return_stmt) (post3 Q Q (\<lambda>s. False))"
    using e1 by (auto simp: hoare_def send_error_def seq_def bind_def enqueue_def
          controller_close_def return_stmt_def fresh_def)
  have body: "hoare (fresh g)
       (if length files = 0 then
          seq (send_error m0 d0) return_stmt
        else if no_connection then
          seq (send_error m1 d1) return_stmt
        else
          block
            [sendProgress 5 m2,
             for_index parse 0 files,
             reading (\<lambda>s. sendProgress 15 (m3 s)),
             sendProgress 20 m4,
             tail])
       (post3 Q Q (\<lambda>s. False))"
    by (intro hoare_if e0' e1' blk')
  show ?thesis
    by (rule hoare_try_catch [OF body]) (rule hoare_False)
qed

lemma parse_loop_invalid:
  "hoare (\<lambda>s. (\<exists>f \<in> set files. \<not> valid_node_file f) \<and> fresh g s)
     (for_index (parse_node_file n) i files)
     (post3 (\<lambda>s. False) (failed g) (\<lambda>s. False))"
proof -
  define I where "I = (\<lambda>(i :: nat) rest s. (\<exists>f \<in> set rest. \<not> valid_node_file f) \<and> fresh g s)"
  have step: "hoare (I i (x # rest)) (parse_node_file n i x)
                (post3 (I (Suc i) rest) (failed g) (\<lambda>s. False))" for i x rest
    unfolding I_def
    using parse_node_file_fresh [of g n i x]
    by (auto simp: hoare_def elim!: post3_mono)
  have "hoare (I i files) (for_index (parse_node_file n) i files)
          (post3 (I (i + length files) []) (failed g) (\<lambda>s. False))"
    by (rule hoare_for_index) (rule step)
  then show ?thesis by (simp add: I_def)
qed

lemma parse_loop_first_invalid:
  assumes "\<forall>p \<in> set pre. valid_node_file p" and "lacks_label f" and "file_headers f \<noteq> []"
  shows "hoare (fresh g)
     (for_index (parse_node_file n) i (pre @ f # post))
     (post3 (\<lambda>s. False)
        (\<lambda>s. failed g s \<and> filter is_terminal (events s) = [label_error f]) (\<lambda>s. False))"
proof -
  define I where "I = (\<lambda>(i :: nat) rest s.
      (\<exists>pre'. rest = pre' @ f # post \<and> (\<forall>p \<in> set pre'. valid_node_file p)) \<and> fresh g s)"
  have nv: "\<not> valid_node_file f" using assms(2) by (simp add: lacks_label_def valid_node_file_def)
  have step: "hoare (I i (x # rest)) (parse_node_file n i x)
                (post3 (I (Suc i) rest)
                   (\<lambda>s. failed g s \<and> filter is_terminal (events s) = [label_error f])
                   (\<lambda>s. False))" for i x rest
  proof (rule hoareI)
    fix s assume "I i (x # rest) s"
    then obtain pre' where p: "x # rest = pre' @ f # post" "\<forall>p \<in> set pre'. valid_node_file p"
      and fr: "fresh g s" unfolding I_def by blast
    have h: "post3 (\<lambda>s. fresh g s \<and> valid_node_file x)
        (\<lambda>s. failed g s \<and> \<not> valid_node_file x
              \<and> (lacks_label x \<and> file_headers x \<noteq> []
                   \<longrightarrow> filter is_terminal (events s) = [label_error x]))
        (\<lambda>s. False) (fst (parse_node_file n i x s)) (snd (parse_node_file n i x s))"
      using hoareD [OF parse_node_file_fresh fr] .
    show "post3 (I (Suc i) rest)
            (\<lambda>s. failed g s \<and> filter is_terminal (events s) = [label_error f]) (\<lambda>s. False)
            (fst (parse_node_file n i x s)) (snd (parse_node_file n i x s))"
    proof (cases pre')
      case Nil
      then have "x = f" using p by simp
      then show ?thesis using h nv assms(2,3) by (auto elim!: post3_mono)
    next
      case (Cons y ys)
      then have "x = y" "rest = ys @ f # post" "valid_node_file x" "\<forall>p \<in> set ys. valid_node_file p"
        using p by auto
      then show ?thesis using h unfolding I_def by (auto elim!: post3_mono)
    qed
  qed
  have "hoare (I i (pre @ f # post)) (for_index (parse_node_file n) i (pre @ f # post))
          (post3 (I (i + length (pre @ f # post)) [])
             (\<lambda>s. failed g s \<and> filter is_terminal (events s) = [label_error f]) (\<lambda>s. False))"
    by (rule hoare_for_index) (rule step)
  then show ?thesis
    by (rule hoare_post3_conseq) (use assms(1) in \<open>auto simp: I_def\<close>)
qed

lemma init_state_fresh: "fresh g (init_state g)"
  by (simp add: fresh_def init_state_def)

lemma upload_nodes_rejects:
  assumes "f \<in> set files" and "\<not> valid_node_file f"
  shows "failed g (snd (upload_nodes env files conn (init_state g)))"
proof -
  have loop: "hoare (fresh g) (for_index (parse_node_file (length files)) 0 files)
                (post3 (\<lambda>s. False) (failed g) (\<lambda>s. False))"
    by (rule hoare_pre [OF parse_loop_invalid]) (use assms in blast)
  have "hoare (fresh g) (upload_nodes env files conn) (post3 (failed g) (failed g) (failed g))"
    unfolding upload_nodes_def
    by (rule route_rejects [OF loop]) (rule send_error_return_fresh)+
  from hoareD [OF this init_state_fresh] show ?thesis by (simp add: post3_same)
qed

lemma upload_nodes_label_error:
  assumes "\<forall>p \<in> set pre. valid_node_file p" and "lacks_label f" and "file_headers f \<noteq> []"
    and "\<not> falsy (connectionUrl conn)" "\<not> falsy (username conn)" "\<not> falsy (password conn)"
  shows "filter is_terminal (events (snd (upload_nodes env (pre @ f # post) conn (init_state g))))
         = [label_error f]"
proof -
  let ?Q = "\<lambda>s. failed g s \<and> filter is_terminal (events s) = [label_error f]"
  have loop: "hoare (fresh g)
       (for_index (parse_node_file (length (pre @ f # post))) 0 (pre @ f # post))
       (post3 (\<lambda>s. False) ?Q (\<lambda>s. False))"
    by (rule parse_loop_first_invalid [OF assms(1,2,3)])
  have "hoare (fresh g) (upload_nodes env (pre @ f # post) conn) (post3 ?Q ?Q ?Q)"
    unfolding upload_nodes_def
    by (rule route_rejects [OF loop]) (use assms(4,5,6) in simp_all)
  from hoareD [OF this init_state_fresh] show ?thesis by (simp add: post3_same)
qed

text \<open>
  C2 (as amended). Whenever one of the input files of a node run was parsed with headers
  that lack \<^verbatim>\<open>LABEL\<close>, the run makes no call to the driver at all (no driver, no session,
  no write), leaves the store as it was, and emits exactly one terminal event, an error.
  When moreover the connection headers are complete, every earlier file passes validation
  and the file has at least one header, that error is the \<^verbatim>\<open>LABEL\<close> error of the file, whose
  details end with \<^verbatim>\<open>Found columns: \<close> followed by the headers joined with \<^verbatim>\<open>", "\<close>.
\<close>

theorem missing_label_rejected:
  assumes "f \<in> set files" and "lacks_label f"
  shows "calls (snd (upload_nodes env files conn (init_state g))) = []
   \<and> store (snd (upload_nodes env files conn (init_state g))) = g
   \<and> (\<exists>m d. filter is_terminal (events (snd (upload_nodes env files conn (init_state g))))
              = [ErrorEvent m d])
   \<and> (files = pre @ f # post \<and> (\<forall>p \<in> set pre. valid_node_file p) \<and> file_headers f \<noteq> []
        \<and> \<not> falsy (connectionUrl conn) \<and> \<not> falsy (username conn) \<and> \<not> falsy (password conn)
      \<longrightarrow> filter is_terminal (events (snd (upload_nodes env files conn (init_state g))))
          = [ErrorEvent (''File \"'' @ name f @ ''\" is missing required \"LABEL\" column'')
               (Some [''The CSV file must have a column named \"LABEL\" for the node type.'',
                      ''Found columns: '' @ join '', '' (file_headers f)])])"
proof -
  have nv: "\<not> valid_node_file f" using assms(2) by (simp add: lacks_label_def valid_node_file_def)
  have "failed g (snd (upload_nodes env files conn (init_state g)))"
    by (rule upload_nodes_rejects [OF assms(1) nv])
  then show ?thesis
    using upload_nodes_label_error [of pre f conn env post g] assms(2)
    by (auto simp: failed_def label_error_def)
qed

theorem missing_label_rejected_witness:
  "id_name_csv \<in> set [people_csv, id_name_csv] \<and> lacks_label id_name_csv
   \<and> [people_csv, id_name_csv] = [people_csv] @ id_name_csv # []
   \<and> valid_node_file people_csv \<and> file_headers id_name_csv \<noteq> []
   \<and> \<not> falsy (connectionUrl sample_connection) \<and> \<not> falsy (username sample_connection)
   \<and> \<not> falsy (password sample_connection)
   \<and> calls (snd (upload_nodes no_faults [people_csv, id_name_csv] sample_connection
        (init_state empty_graph))) = []
   \<and> filter is_terminal (events (snd (upload_nodes no_faults [people_csv, id_name_csv]
        sample_connection (init_state empty_graph))))
      = [ErrorEvent ''File \"plain.csv\" is missing required \"LABEL\" column''
           (Some [''The CSV file must have a column named \"LABEL\" for the node type.'',
                  ''Found columns: id, name''])]"
proof -
  have a: "id_name_csv \<in> set [people_csv, id_name_csv]" by simp
  have b: "lacks_label id_name_csv" by code_simp
  have c: "valid_node_file people_csv" by code_simp
  have d: "file_headers id_name_csv \<noteq> []" by code_simp
  have e: "\<not> falsy (connectionUrl sample_connection)" "\<not> falsy (username sample_connection)"
    "\<not> falsy (password sample_connection)" by code_simp+
  have n: "name id_name_csv = ''plain.csv''" by (simp add: id_name_csv_def)
  have j: "''Found columns: '' @ join '', '' (file_headers id_name_csv) = ''Found columns: id, name''"
    by code_simp
  show ?thesis
    using missing_label_rejected [OF a b, of no_faults sample_connection empty_graph
        "[people_csv]" "[]"] a b c d e n j
    by simp
qed

text \<open>
  The claim as stated fails for a file with no header at all: its headers lack
  \<^verbatim>\<open>LABEL\<close>, but the error is the one of the header check, without the found columns.
\<close>

theorem headerless_file_counterexample:
  "lacks_label headerless_csv
   \<and> ''Found columns: '' @ join '', '' (file_headers headerless_csv)
       \<notin> set (error_details (events (snd (upload_nodes no_faults [headerless_csv]
            sample_connection (init_state empty_graph)))))
   \<and> filter is_terminal (events (snd (upload_nodes no_faults [headerless_csv]
            sample_connection (init_state empty_graph))))
      = [ErrorEvent ''File \"empty.csv\" has no headers''
           (Some [''The CSV file must have a header row with column names.''])]"
  by code_simp

subsection \<open>One relationship batch\<close>

text \<open>The map literal sets the property \<open>k\<close> exactly when \<open>k\<close> is one of its keys and the row has
  a value for it, and to that value.\<close>

lemma map_of_props_literal:
  "map_of (props_literal keys r) k = (if k \<in> set keys then map_of r k else None)"
  unfolding props_literal_def by (induction keys) (auto split: option.splits)

lemma props_literal_keys:
  "fst ` set (props_literal keys r) = {k \<in> set keys. map_of r k \<noteq> None}"
  unfolding dom_map_of_conv_image_fst [symmetric] dom_def map_of_props_literal by auto

lemma rels_of_row_props:
  "\<rho> \<in> set (rels_of_row g type keys r) \<Longrightarrow> rel_props \<rho> = props_literal keys r"
  by (auto simp: rels_of_row_def)

lemma rel_keys_subset: "set (rel_keys x) = set (map fst x) - set REQUIRED_COLUMNS"
  by (auto simp: rel_keys_def)

text \<open>
  C10. The statement of a relationship batch is built from the keys of the first row of
  the batch that are not required columns; when the store runs and commits it, the
  relationships it adds are those of the rows of the batch, and a relationship that comes
  from the row \<open>r\<close> has the property \<open>k\<close> exactly when \<open>k\<close> is a key of the first row, not a
  required column, and \<open>r\<close> has a value for \<open>k\<close>; its value is then that of \<open>r\<close>. So every
  column of the first row is written for every row that has it, and a column that only a
  later row has is never written.
\<close>

theorem rel_props_from_first_row:
  assumes "write_fault env (length (filter is_tx_run (calls s))) = None"
    and "commit_fault env (length (filter is_tx_run (calls s))) = None" and "\<not> closed s"
  shows "calls (snd (rel_batch env type (x # xs) s))
       = calls s @ [TxRun (CreateRels type
                      (filter (\<lambda>key. \<not> List.member REQUIRED_COLUMNS key) (map fst x))) (x # xs)]
   \<and> rels (store (snd (rel_batch env type (x # xs) s)))
       = rels (store s) @ concat (map (rels_of_row (store s) type
            (filter (\<lambda>key. \<not> List.member REQUIRED_COLUMNS key) (map fst x))) (x # xs))
   \<and> (\<forall>r \<in> set (x # xs). \<forall>\<rho> \<in> set (rels_of_row (store s) type
            (filter (\<lambda>key. \<not> List.member REQUIRED_COLUMNS key) (map fst x)) r).
          (\<forall>k. map_of (rel_props \<rho>) k
                 = (if k \<in> set (map fst x) - set REQUIRED_COLUMNS then map_of r k else None))
          \<and> fst ` set (rel_props \<rho>)
              = {k \<in> set (map fst x) - set REQUIRED_COLUMNS. map_of r k \<noteq> None})"
proof -
  have k: "filter (\<lambda>key. \<not> List.member REQUIRED_COLUMNS key) (map fst x) = rel_keys x"
    by (simp add: rel_keys_def)
  have a: "calls (snd (rel_batch env type (x # xs) s))
       = calls s @ [TxRun (CreateRels type (rel_keys x)) (x # xs)]"
    by (simp add: rel_batch_ok [OF assms])
  have b: "rels (store (snd (rel_batch env type (x # xs) s)))
       = rels (store s) @ concat (map (rels_of_row (store s) type (rel_keys x)) (x # xs))"
    by (simp add: rel_batch_ok [OF assms] cypher_create_rels_def Let_def)
  have c: "(\<forall>k. map_of (rel_props \<rho>) k
                 = (if k \<in> set (map fst x) - set REQUIRED_COLUMNS then map_of r k else None))
           \<and> fst ` set (rel_props \<rho>)
               = {k \<in> set (map fst x) - set REQUIRED_COLUMNS. map_of r k \<noteq> None}"
    if "\<rho> \<in> set (rels_of_row (store s) type (rel_keys x) r)" for r \<rho>
    unfolding rels_of_row_props [OF that] map_of_props_literal props_literal_keys
      rel_keys_subset
    by simp
  show ?thesis unfolding k using a b c by blast
qed

theorem rel_props_from_first_row_witness:
  "write_fault no_faults (length (filter is_tx_run (calls (init_state people_graph)))) = None
   \<and> commit_fault no_faults (length (filter is_tx_run (calls (init_state people_graph)))) = None
   \<and> \<not> closed (init_state people_graph)
   \<and> rels (store (snd (rel_batch no_faults ''KNOWS'' dated_batch (init_state people_graph))))
      = [\<lparr>rel_from = 0, rel_to = 1, rel_type = ''KNOWS'', rel_props = [(''since'', ''2020'')]\<rparr>,
         \<lparr>rel_from = 1, rel_to = 0, rel_type = ''KNOWS'', rel_props = []\<rparr>,
         \<lparr>rel_from = 0, rel_to = 1, rel_type = ''KNOWS'', rel_props = [(''since'', ''2021'')]\<rparr>]
   \<and> rels (store (snd (rel_batch no_faults ''KNOWS'' ragged_batch (init_state people_graph))))
      = [\<lparr>rel_from = 0, rel_to = 1, rel_type = ''KNOWS'', rel_props = []\<rparr>,
         \<lparr>rel_from = 1, rel_to = 0, rel_type = ''KNOWS'', rel_props = []\<rparr>]
   \<and> rels (store (snd (upload_relationships no_faults [dated_csv] sample_connection
        (init_state people_graph))))
      = [\<lparr>rel_from = 0, rel_to = 1, rel_type = ''KNOWS'', rel_props = [(''since'', ''2020'')]\<rparr>,
         \<lparr>rel_from = 1, rel_to = 0, rel_type = ''KNOWS'', rel_props = []\<rparr>,
         \<lparr>rel_from = 0, rel_to = 1, rel_type = ''KNOWS'', rel_props = [(''since'', ''2021'')]\<rparr>]"
proof -
  have a: "write_fault no_faults (length (filter is_tx_run (calls (init_state people_graph)))) = None"
    by (simp add: no_faults_def)
  have a': "commit_fault no_faults (length (filter is_tx_run (calls (init_state people_graph)))) = None"
    by (simp add: no_faults_def)
  have b: "\<not> closed (init_state people_graph)" by (simp add: init_state_def)
  have r: "ragged_batch = hd ragged_batch # tl ragged_batch" by (simp add: ragged_batch_def)
  have d: "dated_batch = hd dated_batch # tl dated_batch" by (simp add: dated_batch_def)
  have c: "rels (store (init_state people_graph))
        @ concat (map (rels_of_row (store (init_state people_graph)) ''KNOWS''
            (filter (\<lambda>key. \<not> List.member REQUIRED_COLUMNS key) (map fst (hd ragged_batch))))
            (hd ragged_batch # tl ragged_batch))
      = [\<lparr>rel_from = 0, rel_to = 1, rel_type = ''KNOWS'', rel_props = []\<rparr>,
         \<lparr>rel_from = 1, rel_to = 0, rel_type = ''KNOWS'', rel_props = []\<rparr>]"
    by code_simp
  have e: "rels (store (init_state people_graph))
        @ concat (map (rels_of_row (store (init_state people_graph)) ''KNOWS''
            (filter (\<lambda>key. \<not> List.member REQUIRED_COLUMNS key) (map fst (hd dated_batch))))
            (hd dated_batch # tl dated_batch))
      = [\<lparr>rel_from = 0, rel_to = 1, rel_type = ''KNOWS'', rel_props = [(''since'', ''2020'')]\<rparr>,
         \<lparr>rel_from = 1, rel_to = 0, rel_type = ''KNOWS'', rel_props = []\<rparr>,
         \<lparr>rel_from = 0, rel_to = 1, rel_type = ''KNOWS'', rel_props = [(''since'', ''2021'')]\<rparr>]"
    by code_simp
  have f: "rels (store (snd (upload_relationships no_faults [dated_csv] sample_connection
        (init_state people_graph))))
      = [\<lparr>rel_from = 0, rel_to = 1, rel_type = ''KNOWS'', rel_props = [(''since'', ''2020'')]\<rparr>,
         \<lparr>rel_from = 1, rel_to = 0, rel_type = ''KNOWS'', rel_props = []\<rparr>,
         \<lparr>rel_from = 0, rel_to = 1, rel_type = ''KNOWS'', rel_props = [(''since'', ''2021'')]\<rparr>]"
    by code_simp
  have g: "rels (store (snd (rel_batch no_faults ''KNOWS'' ragged_batch
        (init_state people_graph))))
      = [\<lparr>rel_from = 0, rel_to = 1, rel_type = ''KNOWS'', rel_props = []\<rparr>,
         \<lparr>rel_from = 1, rel_to = 0, rel_type = ''KNOWS'', rel_props = []\<rparr>]"
    using rel_props_from_first_row [OF a a' b, of "''KNOWS''" "hd ragged_batch" "tl ragged_batch"]
      c r
    by simp
  have h: "rels (store (snd (rel_batch no_faults ''KNOWS'' dated_batch
        (init_state people_graph))))
      = [\<lparr>rel_from = 0, rel_to = 1, rel_type = ''KNOWS'', rel_props = [(''since'', ''2020'')]\<rparr>,
         \<lparr>rel_from = 1, rel_to = 0, rel_type = ''KNOWS'', rel_props = []\<rparr>,
         \<lparr>rel_from = 0, rel_to = 1, rel_type = ''KNOWS'', rel_props = [(''since'', ''2021'')]\<rparr>]"
    using rel_props_from_first_row [OF a a' b, of "''KNOWS''" "hd dated_batch" "tl dated_batch"]
      e d
    by simp
  show ?thesis using a a' b f g h by blast
qed

lemma length_rels_of_row:
  "length (rels_of_row g type keys r)
   = length (match_id g (map_of r ''FROM_ID'')) * length (match_id g (map_of r ''TO_ID''))"
  by (simp add: rels_of_row_def length_concat comp_def sum_list_triv)

lemma set_match_id:
  "set (match_id g (Some v))
   = {j. j < length (nodes g) \<and> map_of (node_props (nodes g ! j)) ''id'' = Some v}"
  by (auto simp: match_id_def)

lemma match_id_relabel:
  "match_id (g\<lparr>nodes := map (\<lambda>n. n\<lparr>node_labels := f n\<rparr>) (nodes g)\<rparr>) v = match_id g v"
  by (cases v) (auto simp: match_id_def intro!: filter_cong)

lemma props_literal_cong:
  "(\<And>k. k \<in> set keys \<Longrightarrow> map_of r' k = map_of r k)
   \<Longrightarrow> props_literal keys r' = props_literal keys r"
  unfolding props_literal_def by (induction keys) simp_all

lemma rels_of_row_row_labels:
  assumes "\<And>k. k \<noteq> ''FROM_LABEL'' \<Longrightarrow> k \<noteq> ''TO_LABEL'' \<Longrightarrow> map_of r' k = map_of r k"
  shows "rels_of_row g type (rel_keys x) r' = rels_of_row g type (rel_keys x) r"
proof -
  have "props_literal (rel_keys x) r' = props_literal (rel_keys x) r"
    by (rule props_literal_cong) (use assms in \<open>auto simp: rel_keys_def REQUIRED_COLUMNS_def\<close>)
  moreover have "map_of r' ''FROM_ID'' = map_of r ''FROM_ID''"
    "map_of r' ''TO_ID'' = map_of r ''TO_ID''"
    using assms by simp_all
  ultimately show ?thesis by (simp add: rels_of_row_def)
qed

text \<open>
  C5 (as amended). When the store throws neither on the statement of a relationship batch
  nor on its commit (and the stream is open), the batch completes normally; every row creates one
  relationship per pair of a node whose \<^verbatim>\<open>id\<close> property equals the row's \<^verbatim>\<open>FROM_ID\<close> and a
  node whose \<^verbatim>\<open>id\<close> equals its \<^verbatim>\<open>TO_ID\<close>, and \<open>totalCreated\<close>, the \<^verbatim>\<open>totalRows\<close> of the summary,
  grows by that number: nothing for a row with an endpoint that matches no node, one for
  a row whose endpoints match one node each. The match is by \<^verbatim>\<open>id\<close> alone: neither the
  labels of the nodes nor the row's \<^verbatim>\<open>FROM_LABEL\<close> and \<^verbatim>\<open>TO_LABEL\<close> change it.
\<close>

theorem endpoints_matched_by_id:
  assumes "write_fault env (length (filter is_tx_run (calls s))) = None"
    and "commit_fault env (length (filter is_tx_run (calls s))) = None" and "\<not> closed s"
  shows "fst (rel_batch env type (x # xs) s) = Normal ()
   \<and> totalCreated (snd (rel_batch env type (x # xs) s))
       = totalCreated s
         + sum_list (map (\<lambda>r. length (match_id (store s) (map_of r ''FROM_ID''))
                               * length (match_id (store s) (map_of r ''TO_ID''))) (x # xs))
   \<and> set (match_id (store s) (Some v))
       = {j. j < length (nodes (store s))
              \<and> map_of (node_props (nodes (store s) ! j)) ''id'' = Some v}
   \<and> match_id ((store s)\<lparr>nodes := map (\<lambda>n. n\<lparr>node_labels := relabel n\<rparr>) (nodes (store s))\<rparr>) w
       = match_id (store s) w
   \<and> ((\<forall>k. k \<noteq> ''FROM_LABEL'' \<and> k \<noteq> ''TO_LABEL'' \<longrightarrow> map_of r' k = map_of r k)
       \<longrightarrow> rels_of_row (store s) type
             (filter (\<lambda>key. \<not> List.member REQUIRED_COLUMNS key) (map fst x)) r'
           = rels_of_row (store s) type
             (filter (\<lambda>key. \<not> List.member REQUIRED_COLUMNS key) (map fst x)) r)"
proof -
  have k: "filter (\<lambda>key. \<not> List.member REQUIRED_COLUMNS key) (map fst x) = rel_keys x"
    by (simp add: rel_keys_def)
  have a: "fst (rel_batch env type (x # xs) s) = Normal ()"
    by (simp add: rel_batch_ok [OF assms])
  have "snd (cypher_create_rels type (rel_keys x) (x # xs) (store s))
        = sum_list (map (\<lambda>r. length (match_id (store s) (map_of r ''FROM_ID''))
                               * length (match_id (store s) (map_of r ''TO_ID''))) (x # xs))"
    by (simp add: cypher_create_rels_def Let_def length_concat comp_def length_rels_of_row)
  then have b: "totalCreated (snd (rel_batch env type (x # xs) s))
       = totalCreated s
         + sum_list (map (\<lambda>r. length (match_id (store s) (map_of r ''FROM_ID''))
                               * length (match_id (store s) (map_of r ''TO_ID''))) (x # xs))"
    by (simp add: rel_batch_ok [OF assms])
  show ?thesis
    unfolding k using a b set_match_id [of "store s" v] match_id_relabel [of relabel "store s" w]
      rels_of_row_row_labels [of r' r "store s" type x]
    by blast
qed

theorem endpoints_matched_by_id_witness:
  "write_fault no_faults (length (filter is_tx_run (calls (init_state people_graph)))) = None
   \<and> commit_fault no_faults (length (filter is_tx_run (calls (init_state people_graph)))) = None
   \<and> \<not> closed (init_state people_graph)
   \<and> totalCreated (snd (rel_batch no_faults ''KNOWS'' ragged_batch (init_state people_graph))) = 2
   \<and> last (events (snd (upload_relationships no_faults [dangling_csv] sample_connection
        (init_state people_graph))))
      = DataEvent True 1 0 ''Successfully created 0 relationships from 1 file(s)''
   \<and> last (events (snd (upload_relationships no_faults [knows_csv] sample_connection
        (init_state people_graph))))
      = DataEvent True 1 1 ''Successfully created 1 relationships from 1 file(s)''"
proof -
  have a: "write_fault no_faults (length (filter is_tx_run (calls (init_state people_graph)))) = None"
    by (simp add: no_faults_def)
  have a': "commit_fault no_faults (length (filter is_tx_run (calls (init_state people_graph)))) = None"
    by (simp add: no_faults_def)
  have b: "\<not> closed (init_state people_graph)" by (simp add: init_state_def)
  have r: "ragged_batch = hd ragged_batch # tl ragged_batch" by (simp add: ragged_batch_def)
  have c: "totalCreated (init_state people_graph)
         + sum_list (map (\<lambda>r. length (match_id (store (init_state people_graph)) (map_of r ''FROM_ID''))
                * length (match_id (store (init_state people_graph)) (map_of r ''TO_ID'')))
              (hd ragged_batch # tl ragged_batch)) = 2"
    by code_simp
  have d: "last (events (snd (upload_relationships no_faults [dangling_csv] sample_connection
        (init_state people_graph))))
      = DataEvent True 1 0 ''Successfully created 0 relationships from 1 file(s)''"
    by code_simp
  have e: "last (events (snd (upload_relationships no_faults [knows_csv] sample_connection
        (init_state people_graph))))
      = DataEvent True 1 1 ''Successfully created 1 relationships from 1 file(s)''"
    by code_simp
  show ?thesis
    using endpoints_matched_by_id [OF a a' b, of "''KNOWS''" "hd ragged_batch" "tl ragged_batch"]
      a a' b c d e r
    by simp
qed

text \<open>
  The claim as stated fails where an id is carried by more than one node: the lookup of
  the endpoint \<^verbatim>\<open>{id: '1'}\<close> matches two nodes, of different labels, and the one row creates
  two relationships, which the summary counts.
\<close>

theorem duplicate_id_counterexample:
  "match_id twins_graph (Some ''1'') = [0, 1]
   \<and> last (events (snd (upload_relationships no_faults [knows_csv] sample_connection
        (init_state twins_graph))))
      = DataEvent True 1 2 ''Successfully created 2 relationships from 1 file(s)''
   \<and> rels (store (snd (upload_relationships no_faults [knows_csv] sample_connection
        (init_state twins_graph))))
      = [\<lparr>rel_from = 0, rel_to = 2, rel_type = ''KNOWS'', rel_props = []\<rparr>,
         \<lparr>rel_from = 1, rel_to = 2, rel_type = ''KNOWS'', rel_props = []\<rparr>]"
  by code_simp

subsection \<open>Statements run in step\<close>

lemma relatedI:
  "(\<And>s s'. R s s' \<Longrightarrow> fst (f s) = fst (f' s') \<and> R (snd (f s)) (snd (f' s'))) \<Longrightarrow> related R f f'"
  by (simp add: related_def)

lemma relatedD:
  "related R f f' \<Longrightarrow> R s s' \<Longrightarrow> f s = (c, t) \<Longrightarrow> f' s' = (c', t') \<Longrightarrow> c' = c \<and> R t t'"
  unfolding related_def by (metis fst_conv snd_conv)

lemma related_bind:
  assumes f: "related R f f'" and g: "\<And>v. related R (g v) (g' v)"
  shows "related R (bind f g) (bind f' g')"
proof (rule relatedI)
  fix s s' assume r: "R s s'"
  obtain c t where fs: "f s = (c, t)" by (cases "f s")
  obtain c' t' where fs': "f' s' = (c', t')" by (cases "f' s'")
  have ct: "c' = c" "R t t'" using relatedD [OF f r fs fs'] by simp_all
  show "fst (bind f g s) = fst (bind f' g' s') \<and> R (snd (bind f g s)) (snd (bind f' g' s'))"
  proof (cases c)
    case (Normal v)
    obtain d u where gs: "g v t = (d, u)" by (cases "g v t")
    obtain d' u' where gs': "g' v t' = (d', u')" by (cases "g' v t'")
    show ?thesis using Normal fs fs' ct gs gs' relatedD [OF g ct(2) gs gs']
      by (simp add: bind_def)
  qed (use fs fs' ct in \<open>simp_all add: bind_def\<close>)
qed

lemma related_seq: "related R f f' \<Longrightarrow> related R g g' \<Longrightarrow> related R (seq f g) (seq f' g')"
  by (simp add: seq_def related_bind)

lemma related_skip: "related R skip skip"
  by (simp add: related_def skip_def)

lemma related_return: "related R return_stmt return_stmt"
  by (simp add: related_def return_stmt_def)

lemma related_throw: "related R (throw e) (throw e)"
  by (simp add: related_def throw_def)

lemma related_block_Nil: "related R (block []) (block [])"
  by (simp add: related_skip)

lemma related_block_Cons:
  "related R f f' \<Longrightarrow> related R (block fs) (block fs')
   \<Longrightarrow> related R (block (f # fs)) (block (f' # fs'))"
  by (simp add: related_seq)

lemma related_try_catch:
  assumes f: "related R f f'" and h: "\<And>e. related R (h e) (h' e)"
  shows "related R (try_catch f h) (try_catch f' h')"
proof (rule relatedI)
  fix s s' assume r: "R s s'"
  obtain c t where fs: "f s = (c, t)" by (cases "f s")
  obtain c' t' where fs': "f' s' = (c', t')" by (cases "f' s'")
  have ct: "c' = c" "R t t'" using relatedD [OF f r fs fs'] by simp_all
  show "fst (try_catch f h s) = fst (try_catch f' h' s')
        \<and> R (snd (try_catch f h s)) (snd (try_catch f' h' s'))"
  proof (cases c)
    case (Throw e)
    obtain d u where hs: "h e t = (d, u)" by (cases "h e t")
    obtain d' u' where hs': "h' e t' = (d', u')" by (cases "h' e t'")
    show ?thesis using Throw fs fs' ct hs hs' relatedD [OF h ct(2) hs hs']
      by (simp add: try_catch_def)
  qed (use fs fs' ct in \<open>simp_all add: try_catch_def\<close>)
qed

lemma related_try_finally:
  assumes f: "related R f f'" and g: "related R g g'"
  shows "related R (try_finally f g) (try_finally f' g')"
proof (rule relatedI)
  fix s s' assume r: "R s s'"
  obtain c t where fs: "f s = (c, t)" by (cases "f s")
  obtain c' t' where fs': "f' s' = (c', t')" by (cases "f' s'")
  have ct: "c' = c" "R t t'" using relatedD [OF f r fs fs'] by simp_all
  obtain d u where gs: "g t = (d, u)" by (cases "g t")
  obtain d' u' where gs': "g' t' = (d', u')" by (cases "g' t'")
  have du: "d' = d" "R u u'" using relatedD [OF g ct(2) gs gs'] by simp_all
  show "fst (try_finally f g s) = fst (try_finally f' g' s')
        \<and> R (snd (try_finally f g s)) (snd (try_finally f' g' s'))"
    using fs fs' ct gs gs' du by (cases d) (simp_all add: try_finally_def)
qed

lemma related_for_of_map:
  assumes "\<And>x. related R (body x) (body' (h x))"
  shows "related R (for_of body xs) (for_of body' (map h xs))"
  by (induction xs) (simp_all add: related_skip related_seq assms)

lemma related_for_of:
  assumes "\<And>x. related R (body x) (body' x)"
  shows "related R (for_of body xs) (for_of body' xs)"
  using related_for_of_map [of R body body' "\<lambda>x. x" xs] assms by simp

lemma related_for_index_map:
  assumes "\<And>i x. related R (body i x) (body' i (h x))"
  shows "related R (for_index body i xs) (for_index body' i (map h xs))"
  by (induction xs arbitrary: i) (simp_all add: related_skip related_seq assms)

lemma related_for_index:
  assumes "\<And>i x. related R (body i x) (body' i x)"
  shows "related R (for_index body i xs) (for_index body' i xs)"
  using related_for_index_map [of R body body' "\<lambda>x. x" i xs] assms by simp

lemma related_reading:
  assumes "\<And>s s'. R s s' \<Longrightarrow> related R (f s) (f' s')"
  shows "related R (reading f) (reading f')"
  using assms unfolding related_def reading_def by blast

lemma related_if:
  "(b \<Longrightarrow> related R f f') \<Longrightarrow> (\<not> b \<Longrightarrow> related R g g')
   \<Longrightarrow> related R (if b then f else g) (if b then f' else g')"
  by simp

text \<open>
  Managed transactions run in step when their transaction functions do, the relation
  survives a rollback, and related states have made the same calls: the store then fails
  both at the same places, and both are run again the same number of times.
\<close>

lemma related_transaction:
  assumes w: "related R w w'"
    and undo: "\<And>s s' t t'. R s s' \<Longrightarrow> R t t' \<Longrightarrow> R (t\<lparr>store := store s\<rparr>) (t'\<lparr>store := store s'\<rparr>)"
    and same: "\<And>s s'. R s s' \<Longrightarrow> calls s' = calls s"
  shows "related R (transaction env w) (transaction env w')"
proof (rule relatedI)
  fix s s' assume r: "R s s'"
  obtain c t where ws: "w s = (c, t)" by (cases "w s")
  obtain c' t' where ws': "w' s' = (c', t')" by (cases "w' s'")
  have ct: "c' = c" "R t t'" using relatedD [OF w r ws ws'] by simp_all
  show "fst (transaction env w s) = fst (transaction env w' s')
        \<and> R (snd (transaction env w s)) (snd (transaction env w' s'))"
    using ws ws' ct undo [OF r ct(2)] same [OF r]
    by (cases c) (simp_all add: transaction_def Let_def split: option.splits)
qed

lemma related_retry:
  assumes "related R f f'"
  shows "related R (retry n f) (retry n f')"
proof (induction n)
  case 0
  show ?case using assms by (simp add: related_def)
next
  case (Suc n)
  show ?case
  proof (rule relatedI)
    fix s s' assume r: "R s s'"
    obtain c t where fs: "f s = (c, t)" by (cases "f s")
    obtain c' t' where fs': "f' s' = (c', t')" by (cases "f' s'")
    have ct: "c' = c" "R t t'" using relatedD [OF assms r fs fs'] by simp_all
    show "fst (retry (Suc n) f s) = fst (retry (Suc n) f' s')
          \<and> R (snd (retry (Suc n) f s)) (snd (retry (Suc n) f' s'))"
    proof (cases c)
      case (Throw e)
      obtain d u where rs: "retry n f t = (d, u)" by (cases "retry n f t")
      obtain d' u' where rs': "retry n f' t' = (d', u')" by (cases "retry n f' t'")
      show ?thesis
        using Throw fs fs' ct rs rs' relatedD [OF Suc.IH ct(2) rs rs'] by simp
    qed (use fs fs' ct in simp_all)
  qed
qed

lemma related_executeWrite:
  assumes w: "related R w w'"
    and undo: "\<And>s s' t t'. R s s' \<Longrightarrow> R t t' \<Longrightarrow> R (t\<lparr>store := store s\<rparr>) (t'\<lparr>store := store s'\<rparr>)"
    and same: "\<And>s s'. R s s' \<Longrightarrow> calls s' = calls s"
  shows "related R (executeWrite env w) (executeWrite env w')"
proof (rule relatedI)
  fix s s' :: state
  assume r: "R s s'"
  let ?n = "retry_limit env (length (filter is_tx_run (calls s)))"
  obtain c t where rs: "retry ?n (transaction env w) s = (c, t)"
    by (cases "retry ?n (transaction env w) s")
  obtain c' t' where rs': "retry ?n (transaction env w') s' = (c', t')"
    by (cases "retry ?n (transaction env w') s'")
  show "fst (executeWrite env w s) = fst (executeWrite env w' s')
        \<and> R (snd (executeWrite env w s)) (snd (executeWrite env w' s'))"
    using rs rs' same [OF r]
      relatedD [OF related_retry [OF related_transaction [OF w undo same]] r rs rs']
    by (simp add: executeWrite_def)
qed

subsection \<open>Node runs and the graph they start from\<close>

lemma related_reading_same:
  assumes "\<And>s s'. R s s' \<Longrightarrow> f s' = f s" and "\<And>s. related R (f s) (f s)"
  shows "related R (reading f) (reading f)"
  by (rule related_reading) (simp add: assms)

lemma og_enqueue: "related (on_graph X Rl) (enqueue ev) (enqueue ev)"
  by (simp add: related_def on_graph_def enqueue_def)

lemma og_controller_close: "related (on_graph X Rl) controller_close controller_close"
  by (simp add: related_def on_graph_def controller_close_def)

lemma og_sendProgress: "related (on_graph X Rl) (sendProgress p m) (sendProgress p m)"
  by (simp add: sendProgress_def og_enqueue)

lemma og_send_error: "related (on_graph X Rl) (send_error m d) (send_error m d)"
  by (simp add: send_error_def related_seq og_enqueue og_controller_close)

lemma og_push_parsed: "related (on_graph X Rl) (push_parsed p) (push_parsed p)"
  by (simp add: related_def on_graph_def push_parsed_def)

lemma og_neo4j_driver: "related (on_graph X Rl) (neo4j_driver env) (neo4j_driver env)"
  by (simp add: related_def on_graph_def neo4j_driver_def split: option.splits)

lemma og_driver_session: "related (on_graph X Rl) (driver_session env) (driver_session env)"
  by (simp add: related_def on_graph_def driver_session_def split: option.splits)

lemma og_session_close: "related (on_graph X Rl) (session_close env) (session_close env)"
  by (simp add: related_def on_graph_def session_close_def Let_def split: option.splits)

lemma og_driver_close: "related (on_graph X Rl) (driver_close env) (driver_close env)"
  by (simp add: related_def on_graph_def driver_close_def Let_def split: option.splits)

lemma og_add_totalCreated: "related (on_graph X Rl) (add_totalCreated n) (add_totalCreated n)"
  by (simp add: related_def on_graph_def add_totalCreated_def)

lemma og_tx_run:
  "related (on_graph X Rl) (tx_run env (CreateNodes label) b) (tx_run env (CreateNodes label) b)"
  by (simp add: related_def on_graph_def tx_run_def Let_def cypher_create_nodes_def rebase_def
        split: option.splits)

lemma og_node_batch: "related (on_graph X Rl) (node_batch env label b) (node_batch env label b)"
  unfolding node_batch_def node_batch_tx_def
  by (intro related_executeWrite related_bind og_tx_run og_add_totalCreated)
     (simp_all add: on_graph_def)

lemma og_insert_node_file:
  "related (on_graph X Rl) (insert_node_file env pf) (insert_node_file env pf)"
proof -
  have "related (on_graph X Rl) (node_label_rows env entry) (node_label_rows env entry)" for entry
    using node_label_rows_batches [of env "fst entry" "snd entry"]
    by (simp add: related_for_of og_node_batch)
  then show ?thesis by (simp add: insert_node_file_def related_for_of)
qed

lemma og_parse_node_file:
  "related (on_graph X Rl) (parse_node_file n i f) (parse_node_file n i f)"
  unfolding parse_node_file_def
  by (intro related_try_catch related_seq og_sendProgress og_send_error related_return)
     (simp add: Let_def related_throw related_seq og_send_error related_return og_push_parsed
        split: file_read.splits)

lemma og_upload_nodes:
  "related (on_graph X Rl) (upload_nodes env files conn) (upload_nodes env files conn)"
proof -
  have r15: "related (on_graph X Rl) (reading (\<lambda>s. sendProgress 15 (m s)))
               (reading (\<lambda>s. sendProgress 15 (m s)))"
    if "\<And>s g. m (s\<lparr>store := g\<rparr>) = m s" for m
    by (rule related_reading_same) (simp_all add: on_graph_def that og_sendProgress)
  have rloop: "related (on_graph X Rl)
       (reading (\<lambda>s. for_of (insert_node_file env) (parsedFiles s)))
       (reading (\<lambda>s. for_of (insert_node_file env) (parsedFiles s)))"
    by (rule related_reading_same)
       (simp_all add: on_graph_def related_for_of og_insert_node_file)
  have rdata: "related (on_graph X Rl) (reading (\<lambda>s. enqueue (ev s))) (reading (\<lambda>s. enqueue (ev s)))"
    if "\<And>s g. ev (s\<lparr>store := g\<rparr>) = ev s" for ev
    by (rule related_reading_same) (simp_all add: on_graph_def that og_enqueue)
  have rclose: "related (on_graph X Rl)
       (reading (\<lambda>s. if driver s then driver_close env else skip))
       (reading (\<lambda>s. if driver s then driver_close env else skip))"
    by (rule related_reading_same)
       (simp_all add: on_graph_def og_driver_close related_skip)
  show ?thesis
    unfolding upload_nodes_def
    by (intro related_try_catch related_if related_seq related_block_Cons related_block_Nil
          related_try_finally related_for_index og_send_error related_return og_sendProgress
          og_parse_node_file og_neo4j_driver og_driver_session og_session_close
          og_controller_close r15 rloop rdata rclose)
       simp_all
qed

lemma store_upload_nodes:
  "store (snd (upload_nodes env files conn (init_state g)))
   = \<lparr>nodes = nodes g @ nodes (store (snd (upload_nodes env files conn (init_state empty_graph)))),
      rels = rels g\<rparr>"
proof -
  have r: "on_graph (nodes g) (rels g) (init_state empty_graph) (init_state g)"
    by (simp add: on_graph_def init_state_def rebase_def empty_graph_def)
  obtain c t where a: "upload_nodes env files conn (init_state empty_graph) = (c, t)"
    by (cases "upload_nodes env files conn (init_state empty_graph)")
  obtain c' t' where b: "upload_nodes env files conn (init_state g) = (c', t')"
    by (cases "upload_nodes env files conn (init_state g)")
  have "on_graph (nodes g) (rels g) t t'"
    using relatedD [OF og_upload_nodes r a b] by simp
  then show ?thesis using a b by (simp add: on_graph_def rebase_def)
qed

lemma related_for_of_set:
  assumes "\<And>x. x \<in> set xs \<Longrightarrow> related R (body x) (body' x)"
  shows "related R (for_of body xs) (for_of body' xs)"
  using assms by (induction xs) (simp_all add: related_skip related_seq)

lemma kl_enqueue: "related (keeping label_free) (enqueue ev) (enqueue ev)"
  by (simp add: related_def keeping_def enqueue_def label_free_def)

lemma kl_controller_close: "related (keeping label_free) controller_close controller_close"
  by (simp add: related_def keeping_def controller_close_def label_free_def)

lemma kl_sendProgress: "related (keeping label_free) (sendProgress p m) (sendProgress p m)"
  by (simp add: sendProgress_def kl_enqueue)

lemma kl_send_error: "related (keeping label_free) (send_error m d) (send_error m d)"
  by (simp add: send_error_def related_seq kl_enqueue kl_controller_close)

lemma kl_push_parsed: "related (keeping label_free) (push_parsed p) (push_parsed p)"
  by (simp add: related_def keeping_def push_parsed_def label_free_def)

lemma kl_neo4j_driver: "related (keeping label_free) (neo4j_driver env) (neo4j_driver env)"
  by (simp add: related_def keeping_def neo4j_driver_def label_free_def split: option.splits)

lemma kl_driver_session: "related (keeping label_free) (driver_session env) (driver_session env)"
  by (simp add: related_def keeping_def driver_session_def label_free_def split: option.splits)

lemma kl_session_close: "related (keeping label_free) (session_close env) (session_close env)"
  by (simp add: related_def keeping_def session_close_def Let_def label_free_def
        split: option.splits)

lemma kl_driver_close: "related (keeping label_free) (driver_close env) (driver_close env)"
  by (simp add: related_def keeping_def driver_close_def Let_def label_free_def
        split: option.splits)

lemma kl_add_totalCreated:
  "related (keeping label_free) (add_totalCreated n) (add_totalCreated n)"
  by (simp add: related_def keeping_def add_totalCreated_def label_free_def)

lemma kl_tx_run:
  assumes "\<forall>r \<in> set b. ''LABEL'' \<notin> fst ` set r"
  shows "related (keeping label_free) (tx_run env (CreateNodes label) b)
           (tx_run env (CreateNodes label) b)"
  using assms
  by (auto simp: related_def keeping_def tx_run_def Let_def cypher_create_nodes_def
        label_free_def split: option.splits)

lemma kl_node_batch:
  assumes "\<forall>r \<in> set b. ''LABEL'' \<notin> fst ` set r"
  shows "related (keeping label_free) (node_batch env label b) (node_batch env label b)"
  unfolding node_batch_def node_batch_tx_def
  by (intro related_executeWrite related_bind kl_tx_run [OF assms] kl_add_totalCreated)
     (simp_all add: keeping_def label_free_def)

lemma set_batches: "b \<in> set (batches n rs) \<Longrightarrow> set b \<subseteq> set rs"
  by (auto simp: batches_def dest!: in_set_takeD in_set_dropD)

lemma stripped_set: "stripped m \<Longrightarrow> stripped (map_set m k [])"
  by (induction m) (auto simp: stripped_def)

lemma stripped_push: "stripped m \<Longrightarrow> no_label_key r \<Longrightarrow> stripped (map_push m k r)"
  by (induction m) (auto simp: stripped_def)

lemma no_label_key_filter: "no_label_key (filter (\<lambda>kv. fst kv \<noteq> ''LABEL'') r)"
  by (auto simp: no_label_key_def)

lemma stripped_step: "stripped m \<Longrightarrow> stripped (node_group_step m r)"
  by (simp add: node_group_step_def Let_def stripped_push stripped_set no_label_key_filter)

lemma stripped_foldl: "stripped m \<Longrightarrow> stripped (foldl node_group_step m rs)"
  by (induction rs arbitrary: m) (simp_all add: stripped_step)

lemma stripped_group_by_label: "stripped (group_by_label rs)"
  unfolding group_by_label_def by (rule stripped_foldl) (simp add: stripped_def)

lemma stripped_rows:
  "entry \<in> set (group_by_label rs) \<Longrightarrow> r \<in> set (snd entry) \<Longrightarrow> ''LABEL'' \<notin> fst ` set r"
  using stripped_group_by_label [of rs]
  by (simp add: stripped_def list_all_iff no_label_key_def)

lemma kl_insert_node_file:
  "related (keeping label_free) (insert_node_file env pf) (insert_node_file env pf)"
proof -
  have "related (keeping label_free) (node_label_rows env entry) (node_label_rows env entry)"
    if "entry \<in> set (group_by_label (rows pf))" for entry
  proof -
    have free: "\<forall>r \<in> set (snd entry). ''LABEL'' \<notin> fst ` set r"
      using stripped_rows [OF that] by blast
    have "related (keeping label_free) (for_of (node_batch env (fst entry)) (batches 1000 (snd entry)))
            (for_of (node_batch env (fst entry)) (batches 1000 (snd entry)))"
    proof (rule related_for_of_set)
      fix b assume "b \<in> set (batches 1000 (snd entry))"
      then have "\<forall>r \<in> set b. ''LABEL'' \<notin> fst ` set r" using free set_batches by blast
      then show "related (keeping label_free) (node_batch env (fst entry) b)
                   (node_batch env (fst entry) b)"
        by (rule kl_node_batch)
    qed
    then show ?thesis using node_label_rows_batches [of env "fst entry" "snd entry"] by simp
  qed
  then show ?thesis unfolding insert_node_file_def by (rule related_for_of_set)
qed

lemma kl_parse_node_file:
  "related (keeping label_free) (parse_node_file n i f) (parse_node_file n i f)"
  unfolding parse_node_file_def
  by (intro related_try_catch related_seq kl_sendProgress kl_send_error related_return)
     (simp add: Let_def related_throw related_seq kl_send_error related_return kl_push_parsed
        split: file_read.splits)

lemma related_reading_keeping:
  assumes "\<And>s. related (keeping P) (f s) (f s)"
  shows "related (keeping P) (reading f) (reading f)"
  by (rule related_reading) (simp add: keeping_def assms)

lemma kl_upload_nodes:
  "related (keeping label_free) (upload_nodes env files conn) (upload_nodes env files conn)"
  unfolding upload_nodes_def
  by (intro related_try_catch related_if related_seq related_block_Cons related_block_Nil
        related_try_finally related_for_index related_for_of related_reading_keeping
        kl_send_error related_return kl_sendProgress kl_enqueue related_skip
        kl_parse_node_file kl_neo4j_driver kl_driver_session kl_session_close kl_driver_close
        kl_controller_close kl_insert_node_file)

lemma upload_nodes_label_free:
  "label_free (snd (upload_nodes env files conn (init_state empty_graph)))"
proof -
  have r: "keeping label_free (init_state empty_graph) (init_state empty_graph)"
    by (simp add: keeping_def label_free_def init_state_def empty_graph_def)
  obtain c t where a: "upload_nodes env files conn (init_state empty_graph) = (c, t)"
    by (cases "upload_nodes env files conn (init_state empty_graph)")
  have "keeping label_free t t" using relatedD [OF kl_upload_nodes r a a] by simp
  then show ?thesis using a by (simp add: keeping_def)
qed

text \<open>
  C6. A node batch is written by unconditional creation: the statement adds one node per row
  of the batch to whatever the store holds. Hence a node run from any graph leaves that
  graph's nodes in place, followed by exactly the nodes the same run creates from the empty
  graph, and running the same upload again on the result adds them once more: twice the
  nodes of a single run. No created node has a property named \<^verbatim>\<open>LABEL\<close>.
\<close>

theorem node_upload_not_idempotent:
  "cypher_create_nodes label batch g
     = (g\<lparr>nodes := nodes g @ map (\<lambda>r. \<lparr>node_labels = [label], node_props = r\<rparr>) batch\<rparr>,
        length batch)
   \<and> store (snd (upload_nodes env files conn (init_state g)))
     = \<lparr>nodes = nodes g
          @ nodes (store (snd (upload_nodes env files conn (init_state empty_graph)))),
        rels = rels g\<rparr>
   \<and> nodes (store (snd (upload_nodes env files conn
        (init_state (store (snd (upload_nodes env files conn (init_state g))))))))
     = nodes g
       @ nodes (store (snd (upload_nodes env files conn (init_state empty_graph))))
       @ nodes (store (snd (upload_nodes env files conn (init_state empty_graph))))
   \<and> (\<forall>n \<in> set (nodes (store (snd (upload_nodes env files conn (init_state empty_graph))))).
         ''LABEL'' \<notin> fst ` set (node_props n))"
proof -
  have a: "store (snd (upload_nodes env files conn (init_state g')))
     = \<lparr>nodes = nodes g'
          @ nodes (store (snd (upload_nodes env files conn (init_state empty_graph)))),
        rels = rels g'\<rparr>" for g'
    by (rule store_upload_nodes)
  have b: "nodes (store (snd (upload_nodes env files conn
        (init_state (store (snd (upload_nodes env files conn (init_state g))))))))
     = nodes g
       @ nodes (store (snd (upload_nodes env files conn (init_state empty_graph))))
       @ nodes (store (snd (upload_nodes env files conn (init_state empty_graph))))"
    by (subst a) (simp add: a [of g])
  have c: "\<forall>n \<in> set (nodes (store (snd (upload_nodes env files conn (init_state empty_graph))))).
         ''LABEL'' \<notin> fst ` set (node_props n)"
    using upload_nodes_label_free [of env files conn] by (simp add: label_free_def)
  show ?thesis using a [of g] b c by (simp add: cypher_create_nodes_def)
qed

theorem node_upload_not_idempotent_witness:
  "nodes (store (snd (upload_nodes no_faults [people_csv] sample_connection
        (init_state empty_graph))))
     = [\<lparr>node_labels = [''Person''], node_props = [(''id'', ''1''), (''name'', ''Ann'')]\<rparr>,
        \<lparr>node_labels = [''Person''], node_props = [(''id'', ''2''), (''name'', ''Bo'')]\<rparr>]
   \<and> length (nodes (store (snd (upload_nodes no_faults [people_csv] sample_connection
        (init_state (store (snd (upload_nodes no_faults [people_csv] sample_connection
           (init_state empty_graph)))))))))
     = 4
   \<and> ''LABEL'' \<notin> fst ` set [(''id'', ''1''), (''name'', ''Ann'')]
   \<and> ''LABEL'' \<notin> fst ` set [(''id'', ''2''), (''name'', ''Bo'')]"
proof -
  have a: "nodes (store (snd (upload_nodes no_faults [people_csv] sample_connection
        (init_state empty_graph))))
     = [\<lparr>node_labels = [''Person''], node_props = [(''id'', ''1''), (''name'', ''Ann'')]\<rparr>,
        \<lparr>node_labels = [''Person''], node_props = [(''id'', ''2''), (''name'', ''Bo'')]\<rparr>]"
    by code_simp
  have e: "nodes empty_graph = []" by (simp add: empty_graph_def)
  note t = node_upload_not_idempotent [of "''Person''" "[]" empty_graph no_faults "[people_csv]"
      sample_connection]
  have b: "nodes (store (snd (upload_nodes no_faults [people_csv] sample_connection
        (init_state (store (snd (upload_nodes no_faults [people_csv] sample_connection
           (init_state empty_graph))))))))
     = nodes empty_graph
       @ nodes (store (snd (upload_nodes no_faults [people_csv] sample_connection
            (init_state empty_graph))))
       @ nodes (store (snd (upload_nodes no_faults [people_csv] sample_connection
            (init_state empty_graph))))"
    using t by blast
  have "length (nodes (store (snd (upload_nodes no_faults [people_csv] sample_connection
        (init_state (store (snd (upload_nodes no_faults [people_csv] sample_connection
           (init_state empty_graph)))))))))
     = length (nodes empty_graph
       @ nodes (store (snd (upload_nodes no_faults [people_csv] sample_connection
            (init_state empty_graph))))
       @ nodes (store (snd (upload_nodes no_faults [people_csv] sample_connection
            (init_state empty_graph)))))"
    by (rule arg_cong [OF b])
  also have "\<dots> = 4" by (simp only: a e) simp
  finally have c: "length (nodes (store (snd (upload_nodes no_faults [people_csv] sample_connection
        (init_state (store (snd (upload_nodes no_faults [people_csv] sample_connection
           (init_state empty_graph))))))))) = 4" .
  have d: "\<forall>n \<in> set (nodes (store (snd (upload_nodes no_faults [people_csv] sample_connection
          (init_state empty_graph))))).
         ''LABEL'' \<notin> fst ` set (node_props n)"
    using t by blast
  have "''LABEL'' \<notin> fst ` set [(''id'', ''1''), (''name'', ''Ann'')]
        \<and> ''LABEL'' \<notin> fst ` set [(''id'', ''2''), (''name'', ''Bo'')]"
    using d unfolding a by simp
  with a c show ?thesis by blast
qed

subsection \<open>Rows without a grouping key\<close>

lemma sw_sendProgress: "related (same_writes key) (sendProgress p m) (sendProgress p' m')"
  by (simp add: related_def same_writes_def sendProgress_def enqueue_def)

lemma sw_enqueue: "related (same_writes key) (enqueue ev) (enqueue ev)"
  by (simp add: related_def same_writes_def enqueue_def)

lemma sw_controller_close: "related (same_writes key) controller_close controller_close"
  by (simp add: related_def same_writes_def controller_close_def)

lemma sw_send_error: "related (same_writes key) (send_error m d) (send_error m d)"
  by (simp add: send_error_def related_seq sw_enqueue sw_controller_close)

lemma sw_push_parsed:
  "related (same_writes key) (push_parsed p) (push_parsed (drop_parsed key p))"
  by (simp add: related_def same_writes_def push_parsed_def)

lemma sw_neo4j_driver: "related (same_writes key) (neo4j_driver env) (neo4j_driver env)"
  by (simp add: related_def same_writes_def neo4j_driver_def split: option.splits)

lemma sw_driver_session: "related (same_writes key) (driver_session env) (driver_session env)"
  by (simp add: related_def same_writes_def driver_session_def split: option.splits)

lemma sw_session_run_index:
  "related (same_writes key) (session_run_index env) (session_run_index env)"
  by (simp add: related_def same_writes_def session_run_index_def Let_def split: option.splits)

lemma sw_session_close: "related (same_writes key) (session_close env) (session_close env)"
  by (simp add: related_def same_writes_def session_close_def Let_def split: option.splits)

lemma sw_driver_close: "related (same_writes key) (driver_close env) (driver_close env)"
  by (simp add: related_def same_writes_def driver_close_def Let_def split: option.splits)

lemma sw_add_totalCreated: "related (same_writes key) (add_totalCreated n) (add_totalCreated n)"
  by (simp add: related_def same_writes_def add_totalCreated_def)

lemma sw_add_processedRows:
  "related (same_writes key) (add_processedRows n) (add_processedRows n)"
  by (simp add: related_def same_writes_def add_processedRows_def)

lemma sw_tx_run: "related (same_writes key) (tx_run env q b) (tx_run env q b)"
  by (simp add: related_def same_writes_def tx_run_def Let_def split: option.splits prod.splits)

lemma sw_executeWrite:
  "related (same_writes key) w w'
   \<Longrightarrow> related (same_writes key) (executeWrite env w) (executeWrite env w')"
  by (rule related_executeWrite) (simp_all add: same_writes_def)

lemma sw_node_batch: "related (same_writes key) (node_batch env label b) (node_batch env label b)"
  unfolding node_batch_def node_batch_tx_def
  by (intro sw_executeWrite related_bind sw_tx_run sw_add_totalCreated)

lemma sw_rel_batch: "related (same_writes key) (rel_batch env type b) (rel_batch env type b)"
proof (cases b)
  case Nil
  then show ?thesis by (simp add: rel_batch_def rel_batch_tx_def sw_executeWrite related_throw)
next
  case (Cons x xs)
  show ?thesis
    unfolding rel_batch_def rel_batch_tx_def Cons list.case Let_def
    by (intro sw_executeWrite related_bind sw_tx_run related_block_Cons related_block_Nil
          sw_add_totalCreated sw_add_processedRows related_reading sw_sendProgress)
qed

lemma keyed_eq: "keyed key = (\<lambda>r. \<not> falsy (map_of r key))"
  by (rule ext) (simp add: keyed_def)

lemma insert_node_file_drop:
  "insert_node_file env (drop_parsed ''LABEL'' pf) = insert_node_file env pf"
  by (simp add: insert_node_file_def drop_parsed_def keyed_eq group_by_label_filter)

lemma create_rel_file_drop:
  "create_rel_file env (drop_parsed ''TYPE'' pf) = create_rel_file env pf"
  by (simp add: create_rel_file_def drop_parsed_def keyed_eq group_by_type_filter)

lemma sw_insert_node_file:
  "related (same_writes key) (insert_node_file env pf) (insert_node_file env (drop_parsed ''LABEL'' pf))"
proof -
  have "related (same_writes key) (node_label_rows env entry) (node_label_rows env entry)" for entry
    using node_label_rows_batches [of env "fst entry" "snd entry"]
    by (simp add: related_for_of sw_node_batch)
  then show ?thesis
    unfolding insert_node_file_drop by (simp add: insert_node_file_def related_for_of)
qed

lemma sw_create_rel_file:
  "related (same_writes key) (create_rel_file env pf) (create_rel_file env (drop_parsed ''TYPE'' pf))"
proof -
  have "related (same_writes key) (rel_type_rows env entry) (rel_type_rows env entry)" for entry
    using rel_type_rows_batches [of env "fst entry" "snd entry"]
    by (simp add: related_for_of sw_rel_batch)
  then show ?thesis
    unfolding create_rel_file_drop by (simp add: create_rel_file_def related_for_of)
qed

lemma name_drop_keyless: "name (drop_keyless key f) = name f"
  by (simp add: drop_keyless_def)

lemma content_drop_keyless:
  "content f = ParseResult flds data
   \<Longrightarrow> content (drop_keyless key f) = ParseResult flds (filter (keyed key) data)"
  by (simp add: drop_keyless_def)

lemma content_drop_keyless_throws:
  "content f = ReadThrows e \<Longrightarrow> content (drop_keyless key f) = ReadThrows e"
  by (simp add: drop_keyless_def)

lemma sw_push_parsed_rows:
  "related (same_writes key)
     (push_parsed \<lparr>fileName = n, headers = hs, rows = data, rowCount = length data\<rparr>)
     (push_parsed \<lparr>fileName = n, headers = hs, rows = filter (keyed key) data,
                   rowCount = length (filter (keyed key) data)\<rparr>)"
  using sw_push_parsed [of key "\<lparr>fileName = n, headers = hs, rows = data, rowCount = length data\<rparr>"]
  by (simp add: drop_parsed_def)

lemma sw_parse_node_file:
  "related (same_writes key) (parse_node_file n i f) (parse_node_file n i (drop_keyless key f))"
proof (cases "content f")
  case (ReadThrows e)
  show ?thesis
    unfolding parse_node_file_def name_drop_keyless content_drop_keyless_throws [OF ReadThrows]
      ReadThrows file_read.case
    by (intro related_try_catch related_seq sw_sendProgress sw_send_error related_return
          related_throw)
next
  case (ParseResult flds data)
  show ?thesis
    unfolding parse_node_file_def name_drop_keyless content_drop_keyless [OF ParseResult]
      ParseResult file_read.case Let_def
    by (intro related_try_catch related_seq related_if sw_sendProgress sw_send_error
          related_return sw_push_parsed_rows)
qed

lemma sw_parse_rel_file:
  "related (same_writes key) (parse_rel_file n i f) (parse_rel_file n i (drop_keyless key f))"
proof (cases "content f")
  case (ReadThrows e)
  show ?thesis
    unfolding parse_rel_file_def name_drop_keyless content_drop_keyless_throws [OF ReadThrows]
      ReadThrows file_read.case
    by (intro related_try_catch related_seq sw_sendProgress sw_send_error related_return
          related_throw)
next
  case (ParseResult flds data)
  show ?thesis
    unfolding parse_rel_file_def name_drop_keyless content_drop_keyless [OF ParseResult]
      ParseResult file_read.case Let_def
    by (intro related_try_catch related_seq related_if sw_sendProgress sw_send_error
          related_return sw_push_parsed_rows)
qed

lemma sw_read_progress:
  "related (same_writes key) (reading (\<lambda>s. sendProgress p (m s)))
     (reading (\<lambda>s. sendProgress p' (m' s)))"
  by (rule related_reading) (rule sw_sendProgress)

lemma sw_read_summary:
  assumes "\<And>s s'. length (parsedFiles s') = length (parsedFiles s)
             \<Longrightarrow> totalCreated s' = totalCreated s \<Longrightarrow> ev s' = ev s"
  shows "related (same_writes key) (reading (\<lambda>s. enqueue (ev s))) (reading (\<lambda>s. enqueue (ev s)))"
proof (rule related_reading)
  fix s s' assume "same_writes key s s'"
  then have "ev s' = ev s" by (intro assms) (simp_all add: same_writes_def)
  then show "related (same_writes key) (enqueue (ev s)) (enqueue (ev s'))"
    by (simp add: sw_enqueue)
qed

lemma sw_read_close:
  "related (same_writes key) (reading (\<lambda>s. if driver s then driver_close env else skip))
     (reading (\<lambda>s. if driver s then driver_close env else skip))"
proof (rule related_reading)
  fix s s' assume "same_writes key s s'"
  then have "driver s' = driver s" by (simp add: same_writes_def)
  then show "related (same_writes key) (if driver s then driver_close env else skip)
               (if driver s' then driver_close env else skip)"
    by (simp add: sw_driver_close related_skip)
qed

lemma sw_read_node_files:
  "related (same_writes ''LABEL'') (reading (\<lambda>s. for_of (insert_node_file env) (parsedFiles s)))
     (reading (\<lambda>s. for_of (insert_node_file env) (parsedFiles s)))"
proof (rule related_reading)
  fix s s' assume "same_writes ''LABEL'' s s'"
  then have "parsedFiles s' = map (drop_parsed ''LABEL'') (parsedFiles s)"
    by (simp add: same_writes_def)
  then show "related (same_writes ''LABEL'') (for_of (insert_node_file env) (parsedFiles s))
               (for_of (insert_node_file env) (parsedFiles s'))"
    by (simp add: related_for_of_map sw_insert_node_file)
qed

lemma sw_read_rel_files:
  "related (same_writes ''TYPE'') (reading (\<lambda>s. for_of (create_rel_file env) (parsedFiles s)))
     (reading (\<lambda>s. for_of (create_rel_file env) (parsedFiles s)))"
proof (rule related_reading)
  fix s s' assume "same_writes ''TYPE'' s s'"
  then have "parsedFiles s' = map (drop_parsed ''TYPE'') (parsedFiles s)"
    by (simp add: same_writes_def)
  then show "related (same_writes ''TYPE'') (for_of (create_rel_file env) (parsedFiles s))
               (for_of (create_rel_file env) (parsedFiles s'))"
    by (simp add: related_for_of_map sw_create_rel_file)
qed

lemma sw_upload_nodes:
  "related (same_writes ''LABEL'') (upload_nodes env files conn)
     (upload_nodes env (map (drop_keyless ''LABEL'') files) conn)"
  unfolding upload_nodes_def length_map
  by (intro related_try_catch related_if related_seq related_block_Cons related_block_Nil
        related_try_finally related_for_index_map sw_send_error related_return sw_sendProgress
        sw_parse_node_file sw_neo4j_driver sw_driver_session sw_session_close
        sw_controller_close sw_read_progress sw_read_summary sw_read_close sw_read_node_files)
     simp_all

lemma sw_upload_relationships:
  "related (same_writes ''TYPE'') (upload_relationships env files conn)
     (upload_relationships env (map (drop_keyless ''TYPE'') files) conn)"
  unfolding upload_relationships_def length_map
  by (intro related_try_catch related_if related_seq related_block_Cons related_block_Nil
        related_try_finally related_for_index_map sw_send_error related_return sw_sendProgress
        sw_parse_rel_file sw_neo4j_driver sw_driver_session sw_session_close
        sw_session_run_index related_skip
        sw_controller_close sw_read_progress sw_read_summary sw_read_close sw_read_rel_files)
     simp_all

lemma same_writes_init: "same_writes key (init_state g) (init_state g)"
  by (simp add: same_writes_def init_state_def)

lemma type_groups_set: "k \<noteq> [] \<Longrightarrow> type_groups_of rs m \<Longrightarrow> type_groups_of rs (map_set m k [])"
  by (induction m) (auto simp: type_groups_of_def)

lemma type_groups_push:
  "type_groups_of rs m \<Longrightarrow> r \<in> set rs \<Longrightarrow> map_of r ''TYPE'' = Some k
   \<Longrightarrow> type_groups_of rs (map_push m k r)"
  by (induction m) (auto simp: type_groups_of_def)

lemma type_groups_step:
  "type_groups_of rs m \<Longrightarrow> r \<in> set rs \<Longrightarrow> type_groups_of rs (rel_group_step m r)"
  by (cases "map_of r ''TYPE''")
     (auto simp: rel_group_step_def Let_def intro!: type_groups_push type_groups_set)

lemma type_groups_foldl:
  "type_groups_of rs m \<Longrightarrow> set xs \<subseteq> set rs \<Longrightarrow> type_groups_of rs (foldl rel_group_step m xs)"
  by (induction xs arbitrary: m) (simp_all add: type_groups_step)

lemma type_groups_group_by_type: "type_groups_of rs (group_by_type rs)"
  unfolding group_by_type_def by (rule type_groups_foldl) (simp_all add: type_groups_of_def)

lemma label_groups_set:
  "k \<noteq> [] \<Longrightarrow> label_groups_of rs m \<Longrightarrow> label_groups_of rs (map_set m k [])"
  by (induction m) (auto simp: label_groups_of_def)

lemma label_groups_push:
  "label_groups_of rs m \<Longrightarrow> r \<in> set rs \<Longrightarrow> map_of r ''LABEL'' = Some k
   \<Longrightarrow> label_groups_of rs (map_push m k (filter (\<lambda>c. fst c \<noteq> ''LABEL'') r))"
  by (induction m) (auto simp: label_groups_of_def)

lemma label_groups_step:
  "label_groups_of rs m \<Longrightarrow> r \<in> set rs \<Longrightarrow> label_groups_of rs (node_group_step m r)"
  by (cases "map_of r ''LABEL''")
     (auto simp: node_group_step_def Let_def intro!: label_groups_push label_groups_set)

lemma label_groups_foldl:
  "label_groups_of rs m \<Longrightarrow> set xs \<subseteq> set rs
   \<Longrightarrow> label_groups_of rs (foldl node_group_step m xs)"
  by (induction xs arbitrary: m) (simp_all add: label_groups_step)

lemma label_groups_group_by_label: "label_groups_of rs (group_by_label rs)"
  unfolding group_by_label_def by (rule label_groups_foldl) (simp_all add: label_groups_of_def)

text \<open>
  C4. Rows whose grouping-key value (\<^verbatim>\<open>LABEL\<close> for nodes, \<^verbatim>\<open>TYPE\<close> for relationships) is
  absent or empty are in no group: grouping the rows gives what grouping only the rows with
  a key value gives, and every row of every group carries the non-empty key of its group.
  They are never written and never reported: for every store behaviour, input and graph, a
  run makes the same driver calls, leaves the same store and emits the same terminal
  event (the same summary counts, or the same error) as the run on the files without these
  rows.
\<close>

theorem keyless_rows_dropped:
  "group_by_label (filter (keyed ''LABEL'') rs) = group_by_label rs
   \<and> group_by_type (filter (keyed ''TYPE'') rs) = group_by_type rs
   \<and> (\<forall>kv \<in> set (group_by_label rs). fst kv \<noteq> []
         \<and> (\<forall>p \<in> set (snd kv). \<exists>r \<in> set rs. map_of r ''LABEL'' = Some (fst kv)
               \<and> p = filter (\<lambda>c. fst c \<noteq> ''LABEL'') r))
   \<and> (\<forall>kv \<in> set (group_by_type rs). fst kv \<noteq> []
         \<and> (\<forall>r \<in> set (snd kv). r \<in> set rs \<and> map_of r ''TYPE'' = Some (fst kv)))
   \<and> calls (snd (upload_nodes env files conn (init_state g)))
       = calls (snd (upload_nodes env (map (drop_keyless ''LABEL'') files) conn (init_state g)))
   \<and> store (snd (upload_nodes env files conn (init_state g)))
       = store (snd (upload_nodes env (map (drop_keyless ''LABEL'') files) conn (init_state g)))
   \<and> filter is_terminal (events (snd (upload_nodes env files conn (init_state g))))
       = filter is_terminal
           (events (snd (upload_nodes env (map (drop_keyless ''LABEL'') files) conn (init_state g))))
   \<and> calls (snd (upload_relationships env files conn (init_state g)))
       = calls (snd (upload_relationships env (map (drop_keyless ''TYPE'') files) conn
           (init_state g)))
   \<and> store (snd (upload_relationships env files conn (init_state g)))
       = store (snd (upload_relationships env (map (drop_keyless ''TYPE'') files) conn
           (init_state g)))
   \<and> filter is_terminal (events (snd (upload_relationships env files conn (init_state g))))
       = filter is_terminal
           (events (snd (upload_relationships env (map (drop_keyless ''TYPE'') files) conn
              (init_state g))))"
proof -
  have a: "group_by_label (filter (keyed ''LABEL'') rs) = group_by_label rs"
    by (simp add: keyed_eq group_by_label_filter)
  have b: "group_by_type (filter (keyed ''TYPE'') rs) = group_by_type rs"
    by (simp add: keyed_eq group_by_type_filter)
  have c: "\<forall>kv \<in> set (group_by_label rs). fst kv \<noteq> []
         \<and> (\<forall>p \<in> set (snd kv). \<exists>r \<in> set rs. map_of r ''LABEL'' = Some (fst kv)
               \<and> p = filter (\<lambda>c. fst c \<noteq> ''LABEL'') r)"
    using label_groups_group_by_label [of rs] by (simp add: label_groups_of_def list_all_iff)
  have d: "\<forall>kv \<in> set (group_by_type rs). fst kv \<noteq> []
         \<and> (\<forall>r \<in> set (snd kv). r \<in> set rs \<and> map_of r ''TYPE'' = Some (fst kv))"
    using type_groups_group_by_type [of rs] by (simp add: type_groups_of_def list_all_iff)
  obtain c1 s1 where n1: "upload_nodes env files conn (init_state g) = (c1, s1)"
    by (cases "upload_nodes env files conn (init_state g)")
  obtain c2 s2 where n2:
    "upload_nodes env (map (drop_keyless ''LABEL'') files) conn (init_state g) = (c2, s2)"
    by (cases "upload_nodes env (map (drop_keyless ''LABEL'') files) conn (init_state g)")
  have n: "same_writes ''LABEL'' s1 s2"
    using relatedD [OF sw_upload_nodes same_writes_init n1 n2] by simp
  obtain c3 s3 where r1: "upload_relationships env files conn (init_state g) = (c3, s3)"
    by (cases "upload_relationships env files conn (init_state g)")
  obtain c4 s4 where r2:
    "upload_relationships env (map (drop_keyless ''TYPE'') files) conn (init_state g) = (c4, s4)"
    by (cases "upload_relationships env (map (drop_keyless ''TYPE'') files) conn (init_state g)")
  have r: "same_writes ''TYPE'' s3 s4"
    using relatedD [OF sw_upload_relationships same_writes_init r1 r2] by simp
  have e: "calls s1 = calls s2 \<and> store s1 = store s2
           \<and> filter is_terminal (events s1) = filter is_terminal (events s2)"
    using n by (simp add: same_writes_def)
  have f: "calls s3 = calls s4 \<and> store s3 = store s4
           \<and> filter is_terminal (events s3) = filter is_terminal (events s4)"
    using r by (simp add: same_writes_def)
  show ?thesis
    unfolding n1 n2 r1 r2 snd_conv using a b c d e f by blast
qed

theorem keyless_rows_dropped_witness:
  "group_by_label gappy_node_rows = [(''Person'', [[(''id'', ''1'')]])]
   \<and> group_by_type gappy_rel_rows = [(''KNOWS'', [hd gappy_rel_rows])]
   \<and> hd gappy_rel_rows \<in> set gappy_rel_rows
   \<and> map_of (hd gappy_rel_rows) ''TYPE'' = Some ''KNOWS''
   \<and> calls (snd (upload_nodes no_faults [gappy_nodes_csv] sample_connection
        (init_state empty_graph)))
      = [DriverOpened, SessionOpened, TxRun (CreateNodes ''Person'') [[(''id'', ''1'')]],
         SessionClose, DriverClose]
   \<and> filter is_terminal (events (snd (upload_nodes no_faults [gappy_nodes_csv] sample_connection
        (init_state empty_graph))))
      = [DataEvent True 1 1 ''Successfully inserted 1 nodes from 1 file(s)'']
   \<and> filter is_terminal (events (snd (upload_relationships no_faults [gappy_rels_csv]
        sample_connection (init_state people_graph))))
      = [DataEvent True 1 1 ''Successfully created 1 relationships from 1 file(s)'']"
proof -
  note t = keyless_rows_dropped [of gappy_node_rows no_faults "[gappy_nodes_csv]"
      sample_connection empty_graph]
  note u = keyless_rows_dropped [of gappy_rel_rows no_faults "[gappy_rels_csv]"
      sample_connection people_graph]
  have gl: "group_by_label gappy_node_rows = [(''Person'', [[(''id'', ''1'')]])]" by code_simp
  have gt: "group_by_type gappy_rel_rows = [(''KNOWS'', [hd gappy_rel_rows])]" by code_simp
  have "\<forall>kv \<in> set (group_by_type gappy_rel_rows). fst kv \<noteq> []
         \<and> (\<forall>r \<in> set (snd kv). r \<in> set gappy_rel_rows \<and> map_of r ''TYPE'' = Some (fst kv))"
    using u by blast
  then have b: "hd gappy_rel_rows \<in> set gappy_rel_rows
                \<and> map_of (hd gappy_rel_rows) ''TYPE'' = Some ''KNOWS''"
    unfolding gt by simp
  have c: "calls (snd (upload_nodes no_faults [gappy_nodes_csv] sample_connection
        (init_state empty_graph)))
      = calls (snd (upload_nodes no_faults (map (drop_keyless ''LABEL'') [gappy_nodes_csv])
          sample_connection (init_state empty_graph)))"
    using t by blast
  have c': "calls (snd (upload_nodes no_faults (map (drop_keyless ''LABEL'') [gappy_nodes_csv])
          sample_connection (init_state empty_graph)))
      = [DriverOpened, SessionOpened, TxRun (CreateNodes ''Person'') [[(''id'', ''1'')]],
         SessionClose, DriverClose]"
    by code_simp
  have d: "filter is_terminal (events (snd (upload_nodes no_faults [gappy_nodes_csv]
        sample_connection (init_state empty_graph))))
      = filter is_terminal (events (snd (upload_nodes no_faults
          (map (drop_keyless ''LABEL'') [gappy_nodes_csv]) sample_connection
          (init_state empty_graph))))"
    using t by blast
  have d': "filter is_terminal (events (snd (upload_nodes no_faults
          (map (drop_keyless ''LABEL'') [gappy_nodes_csv]) sample_connection
          (init_state empty_graph))))
      = [DataEvent True 1 1 ''Successfully inserted 1 nodes from 1 file(s)'']"
    by code_simp
  have e: "filter is_terminal (events (snd (upload_relationships no_faults [gappy_rels_csv]
        sample_connection (init_state people_graph))))
      = filter is_terminal (events (snd (upload_relationships no_faults
          (map (drop_keyless ''TYPE'') [gappy_rels_csv]) sample_connection
          (init_state people_graph))))"
    using u by blast
  have e': "filter is_terminal (events (snd (upload_relationships no_faults
          (map (drop_keyless ''TYPE'') [gappy_rels_csv]) sample_connection
          (init_state people_graph))))
      = [DataEvent True 1 1 ''Successfully created 1 relationships from 1 file(s)'']"
    by code_simp
  show ?thesis
    using gl gt b c [unfolded c'] d [unfolded d'] e [unfolded e'] by blast
qed

end
